theory Spec2Isabelle
  imports Complex_Main "HOL-Library.AList"
begin

section \<open>The evolutionary engine of EventHorizon (mcp_core.ts)\<close>

text \<open>
  A shallow embedding of the class \<open>EvolutionaryEngine\<close>: its session state, the five
  tool operations \<open>startEvolution\<close>, \<open>addSolution\<close>, \<open>scoreSolution\<close>,
  \<open>evolveGeneration\<close> and \<open>getEvolutionStatus\<close>, and the dispatch of the server's
  request handler.

  Conventions of the embedding.
  \<^item> A number literal of a JSON argument is a \<open>real\<close>, its mathematical value. A number
    that the engine computes is a \<open>jsnum\<close>: a real, \<open>NaN\<close> or an infinity. A literal or an
    exact result beyond the range of the doubles becomes an infinity (\<open>js_number\<close>), and a
    division by zero does not raise. The rounding of a result within the range is not
    modelled.
  \<^item> An optional numeric property (a weight, \<open>maxGenerations\<close>, \<open>populationSize\<close>,
    \<open>convergenceThreshold\<close>) is not type-checked by the source. It is a \<open>jsvalue\<close>: a
    number, or a non-number that cannot be converted to a primitive, on which every
    arithmetic operation, comparison and template literal raises a TypeError.
  \<^item> \<open>Solution\<close> objects live in an explicit heap: the \<open>solutions\<close> table and
    \<open>bestSolution\<close> hold addresses, as the source holds references to one shared object.
  \<^item> Every operation returns its payload (\<open>Inl\<close> an error payload, \<open>Inr\<close> a success
    payload) together with the engine after the call. A \<open>throw\<close> is caught by the
    operation's own \<open>catch\<close>, which leaves the engine as it was at the \<open>throw\<close>.
  \<^item> An argument bag is a record of optional fields: \<open>None\<close> stands for a field that is
    absent or has another JSON type than the one the source tests for with \<open>typeof\<close>.
    The whole bag is optional as well: reading a property of \<open>undefined\<close> raises a
    TypeError.
  \<^item> The results of \<open>generateId()\<close> and \<open>Date.now()\<close> are parameters of the operations.
  \<^item> A \<open>Record<string, T>\<close> is a finite map (the score table an association list, whose
    length is the number of its keys); property names inherited from \<open>Object.prototype\<close>
    are not modelled.
  \<^item> Logging, the human-readable \<open>message\<close> fields, elapsed times, the excerpt
    \<open>relevantContent\<close> and the per-generation summary of the status payload are left out of
    the payloads.
\<close>

subsection \<open>Numbers\<close>

datatype jsnum = Finite real | NaN | PosInfinity | NegInfinity

text \<open>The comparison \<open>a > b\<close>: false whenever an operand is \<open>NaN\<close>.\<close>

fun js_gt :: "jsnum \<Rightarrow> jsnum \<Rightarrow> bool" where
  "js_gt (Finite x) (Finite y) = (x > y)"
| "js_gt (Finite x) NegInfinity = True"
| "js_gt PosInfinity (Finite y) = True"
| "js_gt PosInfinity NegInfinity = True"
| "js_gt _ _ = False"

text \<open>The comparison \<open>a >= b\<close>.\<close>

fun js_ge :: "jsnum \<Rightarrow> jsnum \<Rightarrow> bool" where
  "js_ge (Finite x) (Finite y) = (x \<ge> y)"
| "js_ge (Finite x) NegInfinity = True"
| "js_ge PosInfinity (Finite y) = True"
| "js_ge PosInfinity NegInfinity = True"
| "js_ge PosInfinity PosInfinity = True"
| "js_ge NegInfinity NegInfinity = True"
| "js_ge _ _ = False"

text \<open>
  The least real that rounds to \<open>Infinity\<close>: the midpoint of the largest double,
  \<open>2^1024 - 2^971\<close>, and \<open>2^1024\<close>.
\<close>

definition js_overflow :: real where
  "js_overflow = 2 ^ 1024 - 2 ^ 970"

text \<open>
  The double for the exact value \<open>r\<close> of an arithmetic result, or of a number literal
  that \<open>JSON.parse\<close> reads.
\<close>

definition js_number :: "real \<Rightarrow> jsnum" where
  "js_number r =
     (if js_overflow \<le> r then PosInfinity
      else if r \<le> - js_overflow then NegInfinity
      else Finite r)"

text \<open>
  The quotient \<open>a / b\<close> of two finite numbers. The sums that the engine divides start at
  \<open>+0\<close>, so a zero divisor is \<open>+0\<close> and the sign of the result is the dividend's.
\<close>

definition js_div :: "real \<Rightarrow> real \<Rightarrow> jsnum" where
  "js_div a b =
     (if b \<noteq> 0 then js_number (a / b)
      else if a > 0 then PosInfinity
      else if a < 0 then NegInfinity
      else NaN)"

text \<open>The quotient \<open>a / b\<close> of any two numbers.\<close>

fun js_divide :: "jsnum \<Rightarrow> jsnum \<Rightarrow> jsnum" where
  "js_divide (Finite x) (Finite y) = js_div x y"
| "js_divide NaN _ = NaN"
| "js_divide _ NaN = NaN"
| "js_divide (Finite x) PosInfinity = Finite 0"
| "js_divide (Finite x) NegInfinity = Finite 0"
| "js_divide PosInfinity (Finite y) = (if y < 0 then NegInfinity else PosInfinity)"
| "js_divide NegInfinity (Finite y) = (if y < 0 then PosInfinity else NegInfinity)"
| "js_divide _ _ = NaN"

text \<open>The product \<open>a * b\<close>: an infinity times zero is \<open>NaN\<close>.\<close>

fun js_mul :: "jsnum \<Rightarrow> jsnum \<Rightarrow> jsnum" where
  "js_mul (Finite x) (Finite y) = js_number (x * y)"
| "js_mul NaN _ = NaN"
| "js_mul _ NaN = NaN"
| "js_mul (Finite x) PosInfinity =
     (if x > 0 then PosInfinity else if x < 0 then NegInfinity else NaN)"
| "js_mul (Finite x) NegInfinity =
     (if x > 0 then NegInfinity else if x < 0 then PosInfinity else NaN)"
| "js_mul PosInfinity (Finite y) =
     (if y > 0 then PosInfinity else if y < 0 then NegInfinity else NaN)"
| "js_mul NegInfinity (Finite y) =
     (if y > 0 then NegInfinity else if y < 0 then PosInfinity else NaN)"
| "js_mul PosInfinity PosInfinity = PosInfinity"
| "js_mul NegInfinity NegInfinity = PosInfinity"
| "js_mul PosInfinity NegInfinity = NegInfinity"
| "js_mul NegInfinity PosInfinity = NegInfinity"

text \<open>The sum \<open>a + b\<close> of two numbers.\<close>

fun js_add :: "jsnum \<Rightarrow> jsnum \<Rightarrow> jsnum" where
  "js_add (Finite x) (Finite y) = js_number (x + y)"
| "js_add NaN _ = NaN"
| "js_add _ NaN = NaN"
| "js_add PosInfinity NegInfinity = NaN"
| "js_add NegInfinity PosInfinity = NaN"
| "js_add PosInfinity _ = PosInfinity"
| "js_add _ PosInfinity = PosInfinity"
| "js_add NegInfinity _ = NegInfinity"
| "js_add _ NegInfinity = NegInfinity"

text \<open>A number divided by the length of an array.\<close>

fun js_div_count :: "jsnum \<Rightarrow> nat \<Rightarrow> jsnum" where
  "js_div_count (Finite x) n = js_div x (real n)"
| "js_div_count NaN n = NaN"
| "js_div_count PosInfinity n = PosInfinity"
| "js_div_count NegInfinity n = NegInfinity"

text \<open>\<open>Math.max(...xs)\<close>: \<open>-Infinity\<close> for no argument, \<open>NaN\<close> as soon as one argument is.\<close>

fun js_max2 :: "jsnum \<Rightarrow> jsnum \<Rightarrow> jsnum" where
  "js_max2 NaN _ = NaN"
| "js_max2 _ NaN = NaN"
| "js_max2 a b = (if js_gt b a then b else a)"

definition Math_max :: "jsnum list \<Rightarrow> jsnum" where
  "Math_max xs = foldl js_max2 NegInfinity xs"

text \<open>The decimal numeral of an index, as a template literal renders it.\<close>

function string_of_nat :: "nat \<Rightarrow> string" where
  "string_of_nat n =
     (if n < 10 then [''0123456789'' ! n]
      else string_of_nat (n div 10) @ [''0123456789'' ! (n mod 10)])"
  by pat_completeness auto
termination
  by (relation "measure (\<lambda>n. n)") auto

declare string_of_nat.simps [simp del]

subsection \<open>The data model\<close>

text \<open>
  The value of an optional numeric property: a JSON number, or a value that is not a
  number and has no primitive value, such as the object \<open>{"toString": 0}\<close> (its own
  \<open>toString\<close> is not callable). Non-numbers that JavaScript does convert (a string,
  \<open>true\<close>, an array, an object without such a property) are outside the model.
\<close>

datatype jsvalue = JsNumber real | JsUnconvertible

text \<open>\<open>ToBoolean\<close>: of the numbers only zero is falsy; an object is truthy.\<close>

fun truthy :: "jsvalue \<Rightarrow> bool" where
  "truthy (JsNumber r) = (r \<noteq> 0)"
| "truthy JsUnconvertible = True"

text \<open>\<open>ToNumber\<close>, which raises a TypeError (\<open>None\<close>) on a value without primitive.\<close>

fun toNumber :: "jsvalue \<Rightarrow> jsnum option" where
  "toNumber (JsNumber r) = Some (js_number r)"
| "toNumber JsUnconvertible = None"


record Solution =
  id_solution :: string
  content :: string
  generation :: nat
  scores :: "(string \<times> real) list"
  compositeScore :: jsnum
  parentSolutions :: "string list"
  timestamp :: nat

text \<open>
  \<open>description\<close> is \<open>None\<close> when the check was given as an object without that property
  (the source stores \<open>undefined\<close>).
\<close>

record ConsistencyCheck =
  id_check :: string
  description :: "string option"
  weight :: jsvalue

type_synonym addr = nat

record EvolutionState =
  problemStatement :: string
  consistencyChecks :: "ConsistencyCheck list"
  currentGeneration :: nat
  maxGenerations :: jsvalue
  populationSize :: jsvalue
  convergenceThreshold :: jsvalue
  solutions :: "string \<rightharpoonup> addr"
  generationHistory :: "nat \<rightharpoonup> string list"
  bestSolution :: "addr option"
  isComplete :: bool
  startTime :: nat

record CrossoverRecommendation =
  checkId :: string
  bestSolutionId :: string
  score :: "real option"

text \<open>
  The engine: the field \<open>evolutionState\<close> of the class (\<open>null\<close> before the first start),
  and the heap of the \<open>Solution\<close> objects allocated so far.
\<close>

record Engine =
  evolutionState :: "EvolutionState option"
  heap :: "addr \<Rightarrow> Solution"
  next_addr :: addr

definition unallocated :: Solution where
  "unallocated =
     \<lparr>id_solution = [], content = [], generation = 0, scores = [],
      compositeScore = Finite 0, parentSolutions = [], timestamp = 0\<rparr>"

definition initialEngine :: Engine where
  "initialEngine = \<lparr>evolutionState = None, heap = (\<lambda>a. unallocated), next_addr = 0\<rparr>"

subsection \<open>Arguments and payloads\<close>

text \<open>
  An element of \<open>consistencyChecks\<close>: a string, an object with an optional description and
  an optional weight, or \<open>null\<close>. (A number, a boolean or an array reads like an object
  with neither property.)
\<close>

datatype check_arg =
    CheckString string
  | CheckRecord "string option" "jsvalue option"
  | CheckNull

record StartArgs =
  problemStatement_arg :: "string option"
  consistencyChecks_arg :: "check_arg list option"
  populationSize_arg :: "jsvalue option"
  maxGenerations_arg :: "jsvalue option"
  convergenceThreshold_arg :: "jsvalue option"

record AddArgs =
  content_arg :: "string option"
  parentSolutions_arg :: "string list option"

record ScoreArgs =
  solutionId_arg :: "string option"
  checkId_arg :: "string option"
  score_arg :: "real option"

datatype error =
    NotStarted
  | Validation string
  | SolutionNotFound string
  | CheckNotFound string
  | NoSolutionsInGeneration
  | NoFullyScoredSolutions
  | TypeError

datatype reason = Convergence | MaxGenerations

text \<open>
  The success payloads, with the fields in the order of the source's object literals:
  \<^item> \<open>Started problemStatement consistencyChecks currentGeneration maxGenerations populationSize\<close>
  \<^item> \<open>Added solutionId generation currentPopulationSize targetPopulationSize\<close>
  \<^item> \<open>Scored solutionId checkId score compositeScore completedScores totalChecks isFullyScored\<close>
  \<^item> \<open>Complete reason currentGeneration bestSolution finalScore averageScore\<close>
  \<^item> \<open>Evolved newGeneration averageScore bestScore populationSize crossoverRecommendations\<close>
  \<^item> \<open>Active currentGeneration maxGenerations populationSize targetPopulationSize fullyScored
       bestSolution isComplete\<close>
\<close>

datatype report =
    Started string "ConsistencyCheck list" nat jsvalue jsvalue
  | Added string nat nat jsvalue
  | Scored string string real jsnum nat nat bool
  | Complete reason nat "Solution option" jsnum jsnum
  | Evolved nat jsnum jsnum nat "CrossoverRecommendation list"
  | Active nat jsvalue nat jsvalue nat "Solution option" bool
  | StatusNotStarted

subsection \<open>startEvolution\<close>

text \<open>
  \<open>(x as number) || d\<close>: the default replaces an absent value and a falsy one; a truthy
  value is kept as it is, whatever its type.
\<close>

definition or_default :: "jsvalue option \<Rightarrow> real \<Rightarrow> jsvalue" where
  "or_default x d =
     (case x of None \<Rightarrow> JsNumber d | Some v \<Rightarrow> if truthy v then v else JsNumber d)"

text \<open>
  The callback of \<open>data.consistencyChecks.map\<close>. Reading \<open>check.description\<close> of \<open>null\<close>
  raises (\<open>None\<close>). The weight is \<open>check.weight\<close> when the check is an object and that
  weight is truthy, and \<open>1.0\<close> otherwise.
\<close>

definition normalizeCheck :: "nat \<times> check_arg \<Rightarrow> ConsistencyCheck option" where
  "normalizeCheck p =
     (case p of (index, check) \<Rightarrow>
        (case check of
           CheckNull \<Rightarrow> None
         | CheckString s \<Rightarrow>
             Some \<lparr>id_check = ''check_'' @ string_of_nat (index + 1),
                   description = Some s, weight = JsNumber 1\<rparr>
         | CheckRecord d w \<Rightarrow>
             Some \<lparr>id_check = ''check_'' @ string_of_nat (index + 1),
                   description = d, weight = or_default w 1\<rparr>))"

text \<open>
  The session is assigned before the two log lines are built. The second interpolates
  \<open>maxGenerations\<close> into a template literal, which raises on a value without primitive:
  that \<open>throw\<close> happens with the new session in place.
\<close>

definition startEvolution :: "nat \<Rightarrow> StartArgs option \<Rightarrow> Engine \<Rightarrow> (error + report) \<times> Engine" where
  "startEvolution now input e =
     (case input of
        None \<Rightarrow> (Inl TypeError, e)
      | Some data \<Rightarrow>
     (case problemStatement_arg data of
        None \<Rightarrow> (Inl (Validation ''problemStatement''), e)
      | Some ps \<Rightarrow>
     if ps = [] then (Inl (Validation ''problemStatement''), e) else
     (case consistencyChecks_arg data of
        None \<Rightarrow> (Inl (Validation ''consistencyChecks''), e)
      | Some cs \<Rightarrow>
     (case those (map normalizeCheck (enumerate 0 cs)) of
        None \<Rightarrow> (Inl TypeError, e)
      | Some checks \<Rightarrow>
          let st = \<lparr>problemStatement = ps,
                    consistencyChecks = checks,
                    currentGeneration = 0,
                    maxGenerations = or_default (maxGenerations_arg data) 5,
                    populationSize = or_default (populationSize_arg data) 3,
                    convergenceThreshold = or_default (convergenceThreshold_arg data) (95 / 100),
                    solutions = Map.empty,
                    generationHistory = Map.empty,
                    bestSolution = None,
                    isComplete = False,
                    startTime = now\<rparr>;
              e' = e\<lparr>evolutionState := Some st\<rparr>
          in (case toNumber (maxGenerations st) of
                None \<Rightarrow> (Inl TypeError, e')
              | Some logged \<Rightarrow>
                  (Inr (Started (problemStatement st) (consistencyChecks st)
                          (currentGeneration st) (maxGenerations st) (populationSize st)),
                   e'))))))"

subsection \<open>addSolution\<close>

definition addSolution :: "string \<Rightarrow> nat \<Rightarrow> AddArgs option \<Rightarrow> Engine \<Rightarrow> (error + report) \<times> Engine" where
  "addSolution newId now input e =
     (case evolutionState e of
        None \<Rightarrow> (Inl NotStarted, e)
      | Some st \<Rightarrow>
     (case input of
        None \<Rightarrow> (Inl TypeError, e)
      | Some data \<Rightarrow>
     (case content_arg data of
        None \<Rightarrow> (Inl (Validation ''content''), e)
      | Some c \<Rightarrow>
     if c = [] then (Inl (Validation ''content''), e) else
       let parents = (case parentSolutions_arg data of None \<Rightarrow> [] | Some ps \<Rightarrow> ps);
           solution = \<lparr>id_solution = newId, content = c, generation = currentGeneration st,
                       scores = [], compositeScore = Finite 0, parentSolutions = parents,
                       timestamp = now\<rparr>;
           a = next_addr e;
           bucket = (case generationHistory st (currentGeneration st) of
                       None \<Rightarrow> [] | Some ids \<Rightarrow> ids) @ [newId];
           st' = st\<lparr>solutions := (solutions st)(newId \<mapsto> a),
                    generationHistory := (generationHistory st)(currentGeneration st \<mapsto> bucket)\<rparr>
       in (Inr (Added newId (generation solution) (length bucket) (populationSize st)),
           e\<lparr>evolutionState := Some st', heap := (heap e)(a := solution), next_addr := Suc a\<rparr>))))"

subsection \<open>scoreSolution\<close>

text \<open>
  The composite score of a score table: the two \<open>reduce\<close> calls and their quotient.
  \<open>scores[check.id] || 0\<close> reads an absent score as 0. Each \<open>reduce\<close> stops with a
  TypeError (\<open>None\<close>) at the first weight that has no primitive value.
\<close>

definition totalWeightedScore :: "ConsistencyCheck list \<Rightarrow> (string \<times> real) list \<Rightarrow> jsnum option" where
  "totalWeightedScore checks sc =
     foldl (\<lambda>sum check.
              case sum of
                None \<Rightarrow> None
              | Some s \<Rightarrow>
                  (case toNumber (weight check) of
                     None \<Rightarrow> None
                   | Some w \<Rightarrow>
                       Some (js_add s
                               (js_mul (Finite (case map_of sc (id_check check) of
                                                  None \<Rightarrow> 0 | Some v \<Rightarrow> v)) w))))
       (Some (Finite 0)) checks"

definition totalWeight :: "ConsistencyCheck list \<Rightarrow> jsnum option" where
  "totalWeight checks =
     foldl (\<lambda>sum check.
              case sum of
                None \<Rightarrow> None
              | Some s \<Rightarrow>
                  (case toNumber (weight check) of
                     None \<Rightarrow> None
                   | Some w \<Rightarrow> Some (js_add s w)))
       (Some (Finite 0)) checks"

definition composite :: "ConsistencyCheck list \<Rightarrow> (string \<times> real) list \<Rightarrow> jsnum option" where
  "composite checks sc =
     (case totalWeightedScore checks sc of
        None \<Rightarrow> None
      | Some weightedSum \<Rightarrow>
          (case totalWeight checks of
             None \<Rightarrow> None
           | Some weightSum \<Rightarrow> Some (js_divide weightedSum weightSum)))"

text \<open>The assignment \<open>solution.scores[checkId] = score\<close>.\<close>

definition withScore :: "string \<Rightarrow> real \<Rightarrow> Solution \<Rightarrow> Solution" where
  "withScore cid sc solution = solution\<lparr>scores := AList.update cid sc (scores solution)\<rparr>"

text \<open>
  The update of \<open>bestSolution\<close>, on the heap \<open>h\<close> that holds the rescored solution at
  address \<open>a\<close>. Both composite scores are read through the heap after the assignment:
  \<open>solution\<close> and \<open>bestSolution\<close> may be the same object.
\<close>

definition updatedBest :: "addr option \<Rightarrow> addr \<Rightarrow> (addr \<Rightarrow> Solution) \<Rightarrow> addr option" where
  "updatedBest best a h =
     (case best of
        None \<Rightarrow> Some a
      | Some b \<Rightarrow> if js_gt (compositeScore (h a)) (compositeScore (h b)) then Some a else Some b)"

text \<open>
  The score is stored before the composite score is computed: a TypeError of the
  computation is raised with the new score in the solution's score table, and with its
  composite score and \<open>bestSolution\<close> as they were.
\<close>

definition scoreSolution :: "ScoreArgs option \<Rightarrow> Engine \<Rightarrow> (error + report) \<times> Engine" where
  "scoreSolution input e =
     (case evolutionState e of
        None \<Rightarrow> (Inl NotStarted, e)
      | Some st \<Rightarrow>
     (case input of
        None \<Rightarrow> (Inl TypeError, e)
      | Some data \<Rightarrow>
     (case solutionId_arg data of
        None \<Rightarrow> (Inl (Validation ''solutionId''), e)
      | Some sid \<Rightarrow>
     if sid = [] then (Inl (Validation ''solutionId''), e) else
     (case checkId_arg data of
        None \<Rightarrow> (Inl (Validation ''checkId''), e)
      | Some cid \<Rightarrow>
     if cid = [] then (Inl (Validation ''checkId''), e) else
     (case score_arg data of
        None \<Rightarrow> (Inl (Validation ''score''), e)
      | Some sc \<Rightarrow>
     if sc < 0 \<or> sc > 1 then (Inl (Validation ''score''), e) else
     (case solutions st sid of
        None \<Rightarrow> (Inl (SolutionNotFound sid), e)
      | Some a \<Rightarrow>
     (case find (\<lambda>c. id_check c = cid) (consistencyChecks st) of
        None \<Rightarrow> (Inl (CheckNotFound cid), e)
      | Some consistencyCheck \<Rightarrow>
          let stored = (heap e)(a := withScore cid sc (heap e a))
          in
     (case composite (consistencyChecks st) (scores (stored a)) of
        None \<Rightarrow> (Inl TypeError, e\<lparr>heap := stored\<rparr>)
      | Some c \<Rightarrow>
          let heap' = stored(a := (stored a)\<lparr>compositeScore := c\<rparr>);
              solution = heap' a;
              best' = updatedBest (bestSolution st) a heap';
              completedScores = length (scores solution);
              totalChecks = length (consistencyChecks st)
          in (Inr (Scored (id_solution solution) cid sc (compositeScore solution)
                     completedScores totalChecks (completedScores = totalChecks)),
              e\<lparr>evolutionState := Some (st\<lparr>bestSolution := best'\<rparr>), heap := heap'\<rparr>)))))))))"

subsection \<open>evolveGeneration\<close>

text \<open>The ids of the current generation: \<open>generationHistory[currentGeneration] || []\<close>.\<close>

definition currentGenerationSolutions :: "EvolutionState \<Rightarrow> string list" where
  "currentGenerationSolutions st =
     (case generationHistory st (currentGeneration st) of None \<Rightarrow> [] | Some ids \<Rightarrow> ids)"

text \<open>
  The solutions of the current generation with as many scores as the session has checks.
  An id that the \<open>solutions\<close> table does not know reads as \<open>undefined\<close>, whose \<open>scores\<close>
  cannot be read (\<open>None\<close>).
\<close>

definition fullyScored :: "Engine \<Rightarrow> EvolutionState \<Rightarrow> Solution list option" where
  "fullyScored e st =
     map_option
       (\<lambda>addrs. filter (\<lambda>s. length (scores s) = length (consistencyChecks st)) (map (heap e) addrs))
       (those (map (solutions st) (currentGenerationSolutions st)))"

definition scoreOn :: "string \<Rightarrow> Solution \<Rightarrow> real" where
  "scoreOn cid s = (case map_of (scores s) cid of None \<Rightarrow> 0 | Some v \<Rightarrow> v)"

text \<open>The \<open>reduce\<close> without an initial value, over a non-empty array \<open>first # rest\<close>.\<close>

definition bestForCheck :: "string \<Rightarrow> Solution \<Rightarrow> Solution list \<Rightarrow> Solution" where
  "bestForCheck cid first rest =
     foldl (\<lambda>best current. if scoreOn cid current > scoreOn cid best then current else best)
       first rest"

text \<open>
  The callback of \<open>consistencyChecks.map\<close>. \<open>extractRelevantContent\<close> calls
  \<open>toLowerCase\<close> on the description, which raises when the description is \<open>undefined\<close>.
\<close>

definition recommend :: "Solution \<Rightarrow> Solution list \<Rightarrow> ConsistencyCheck \<Rightarrow> CrossoverRecommendation option" where
  "recommend first rest check =
     (let best = bestForCheck (id_check check) first rest in
      case description check of
        None \<Rightarrow> None
      | Some d \<Rightarrow>
          Some \<lparr>checkId = id_check check, bestSolutionId = id_solution best,
                score = map_of (scores best) (id_check check)\<rparr>)"

definition averageScore :: "Solution list \<Rightarrow> jsnum" where
  "averageScore fs =
     js_div_count (foldl (\<lambda>sum s. js_add sum (compositeScore s)) (Finite 0) fs) (length fs)"

text \<open>
  The comparison with \<open>convergenceThreshold\<close> and the subtraction from \<open>maxGenerations\<close>
  raise on a value without primitive, before anything is assigned. After the increment
  of \<open>currentGeneration\<close> the source formats every recommendation's score with \<open>toFixed\<close>,
  which raises on \<open>undefined\<close>: that \<open>throw\<close> happens in the incremented state.
\<close>

definition evolveGeneration :: "Engine \<Rightarrow> (error + report) \<times> Engine" where
  "evolveGeneration e =
     (case evolutionState e of
        None \<Rightarrow> (Inl NotStarted, e)
      | Some st \<Rightarrow>
     if length (currentGenerationSolutions st) = 0 then (Inl NoSolutionsInGeneration, e) else
     (case fullyScored e st of
        None \<Rightarrow> (Inl TypeError, e)
      | Some [] \<Rightarrow> (Inl NoFullyScoredSolutions, e)
      | Some (first # rest) \<Rightarrow>
     (case those (map (recommend first rest) (consistencyChecks st)) of
        None \<Rightarrow> (Inl TypeError, e)
      | Some crossoverRecommendations \<Rightarrow>
     (case toNumber (convergenceThreshold st) of
        None \<Rightarrow> (Inl TypeError, e)
      | Some threshold \<Rightarrow>
     (case toNumber (maxGenerations st) of
        None \<Rightarrow> (Inl TypeError, e)
      | Some cap \<Rightarrow>
          let avgScore = averageScore (first # rest);
              bestScore = Math_max (map compositeScore (first # rest));
              hasConverged = js_ge bestScore threshold;
              maxGenerationsReached =
                js_ge (Finite (real (currentGeneration st))) (js_add cap (Finite (- 1)))
          in
            if hasConverged \<or> maxGenerationsReached then
              (Inr (Complete (if hasConverged then Convergence else MaxGenerations)
                      (currentGeneration st) (map_option (heap e) (bestSolution st))
                      bestScore avgScore),
               e\<lparr>evolutionState := Some (st\<lparr>isComplete := True\<rparr>)\<rparr>)
            else
              let e' = e\<lparr>evolutionState :=
                           Some (st\<lparr>currentGeneration := currentGeneration st + 1\<rparr>)\<rparr>
              in (case those (map score crossoverRecommendations) of
                    None \<Rightarrow> (Inl TypeError, e')
                  | Some formatted \<Rightarrow>
                      (Inr (Evolved (currentGeneration st + 1) avgScore bestScore
                              (length (first # rest)) crossoverRecommendations),
                       e')))))))"

subsection \<open>getEvolutionStatus\<close>

text \<open>
  The status operation has no \<open>catch\<close>: reading the scores of an unknown id would leave it
  as an exception (\<open>Inl TypeError\<close> here). It assigns nothing.
\<close>

definition getEvolutionStatus :: "Engine \<Rightarrow> (error + report) \<times> Engine" where
  "getEvolutionStatus e =
     (case evolutionState e of
        None \<Rightarrow> (Inr StatusNotStarted, e)
      | Some st \<Rightarrow>
     (case fullyScored e st of
        None \<Rightarrow> (Inl TypeError, e)
      | Some fs \<Rightarrow>
          (Inr (Active (currentGeneration st) (maxGenerations st)
                  (length (currentGenerationSolutions st)) (populationSize st) (length fs)
                  (map_option (heap e) (bestSolution st)) (isComplete st)),
           e)))"

subsection \<open>The request handler\<close>

datatype operation =
    start_evolution nat "StartArgs option"
  | add_solution string nat "AddArgs option"
  | score_solution "ScoreArgs option"
  | evolve_generation
  | get_evolution_status

fun callTool :: "operation \<Rightarrow> Engine \<Rightarrow> (error + report) \<times> Engine" where
  "callTool (start_evolution now input) e = startEvolution now input e"
| "callTool (add_solution newId now input) e = addSolution newId now input e"
| "callTool (score_solution input) e = scoreSolution input e"
| "callTool evolve_generation e = evolveGeneration e"
| "callTool get_evolution_status e = getEvolutionStatus e"

text \<open>The engine after a sequence of requests.\<close>

fun run :: "operation list \<Rightarrow> Engine \<Rightarrow> Engine" where
  "run [] e = e"
| "run (op # ops) e = run ops (snd (callTool op e))"

text \<open>
  \<open>generateId()\<close> concatenates the clock and a random number. The engine relies on its
  result being new; \<open>fresh_id\<close> states that of the id passed to \<open>addSolution\<close>.
\<close>

fun fresh_id :: "operation \<Rightarrow> Engine \<Rightarrow> bool" where
  "fresh_id (add_solution newId now input) e =
     (case evolutionState e of None \<Rightarrow> True | Some st \<Rightarrow> solutions st newId = None)"
| "fresh_id _ e = True"

text \<open>The engines that a server reaches from its construction.\<close>

inductive reachable :: "Engine \<Rightarrow> bool" where
  reachable_init: "reachable initialEngine"
| reachable_call: "reachable e \<Longrightarrow> fresh_id op e \<Longrightarrow> reachable (snd (callTool op e))"



subsection \<open>A sample session\<close>

text \<open>
  Two equally weighted checks and two solutions of generation 0 (\<open>scenario_A\<close>); then the
  first solution scored 1.0 on both checks (\<open>scenario_B\<close>).
\<close>

definition scenario_start :: StartArgs where
  "scenario_start =
     \<lparr>problemStatement_arg = Some ''p'',
      consistencyChecks_arg = Some [CheckString ''fast'', CheckString ''correct''],
      populationSize_arg = None, maxGenerations_arg = None, convergenceThreshold_arg = None\<rparr>"

definition scenario_add :: "string \<Rightarrow> AddArgs" where
  "scenario_add c = \<lparr>content_arg = Some c, parentSolutions_arg = None\<rparr>"

definition scenario_score :: "string \<Rightarrow> string \<Rightarrow> real \<Rightarrow> ScoreArgs" where
  "scenario_score sid cid v =
     \<lparr>solutionId_arg = Some sid, checkId_arg = Some cid, score_arg = Some v\<rparr>"

definition scenario_A :: "operation list" where
  "scenario_A =
     [start_evolution 0 (Some scenario_start),
      add_solution ''s1'' 1 (Some (scenario_add ''x'')),
      add_solution ''s2'' 2 (Some (scenario_add ''y''))]"

definition scenario_B :: "operation list" where
  "scenario_B = scenario_A @
     [score_solution (Some (scenario_score ''s1'' ''check_1'' 1)),
      score_solution (Some (scenario_score ''s1'' ''check_2'' 1))]"

text \<open>
  Both solutions fully scored, equal on the first check (\<open>scenario_C\<close>); and a session
  capped at one generation, with a single solution of composite score 0.3
  (\<open>scenario_D\<close>).
\<close>

definition scenario_C :: "operation list" where
  "scenario_C = scenario_A @
     [score_solution (Some (scenario_score ''s1'' ''check_1'' (1 / 2))),
      score_solution (Some (scenario_score ''s1'' ''check_2'' (1 / 4))),
      score_solution (Some (scenario_score ''s2'' ''check_1'' (1 / 2))),
      score_solution (Some (scenario_score ''s2'' ''check_2'' (1 / 2)))]"

definition scenario_D :: "operation list" where
  "scenario_D =
     [start_evolution 0 (Some (scenario_start\<lparr>maxGenerations_arg := Some (JsNumber 1)\<rparr>)),
      add_solution ''s1'' 1 (Some (scenario_add ''x'')),
      score_solution (Some (scenario_score ''s1'' ''check_1'' (3 / 10))),
      score_solution (Some (scenario_score ''s1'' ''check_2'' (3 / 10)))]"


definition weight_1e308 :: real where
  "weight_1e308 = 10 ^ 308"

definition scenario_W :: "operation list" where
  "scenario_W =
     [start_evolution 0
        (Some (scenario_start\<lparr>consistencyChecks_arg :=
                 Some [CheckRecord (Some ''fast'') (Some (JsNumber weight_1e308)),
                       CheckRecord (Some ''correct'') (Some (JsNumber weight_1e308))]\<rparr>)),
      add_solution ''s1'' 1 (Some (scenario_add ''x'')),
      score_solution (Some (scenario_score ''s1'' ''check_1'' 1))]"

subsection \<open>Invariants\<close>

text \<open>
  The well-formedness of an engine: the check ids are distinct; every solution of the
  \<open>solutions\<close> table is an allocated object whose score table has distinct keys, all of
  them check ids; every bucket of \<open>generationHistory\<close> lists distinct ids of the table,
  whose solutions carry the bucket's generation; and every id of the table is listed in
  some bucket.
\<close>

definition engine_inv :: "Engine \<Rightarrow> bool" where
  "engine_inv e =
     (case evolutionState e of
        None \<Rightarrow> True
      | Some st \<Rightarrow>
          distinct (map id_check (consistencyChecks st))
        \<and> (\<forall>sid a. solutions st sid = Some a \<longrightarrow>
               a < next_addr e
             \<and> distinct (map fst (scores (heap e a)))
             \<and> fst ` set (scores (heap e a)) \<subseteq> id_check ` set (consistencyChecks st))
        \<and> (\<forall>g ids. generationHistory st g = Some ids \<longrightarrow>
               distinct ids
             \<and> (\<forall>sid\<in>set ids. \<exists>a. solutions st sid = Some a \<and> generation (heap e a) = g))
        \<and> (\<forall>sid a. solutions st sid = Some a \<longrightarrow>
               (\<exists>g ids. generationHistory st g = Some ids \<and> sid \<in> set ids)))"

text \<open>
  The invariant of the generation history: every id listed in \<open>generationHistory[g]\<close>
  refers to a solution whose \<open>generation\<close> is \<open>g\<close>, every id of the \<open>solutions\<close> table
  is in exactly one bucket, and no bucket lists an id twice.
\<close>

definition history_invariant :: "Engine \<Rightarrow> bool" where
  "history_invariant e =
     (case evolutionState e of
        None \<Rightarrow> True
      | Some st \<Rightarrow>
          (\<forall>g ids. generationHistory st g = Some ids \<longrightarrow>
             (\<forall>sid\<in>set ids. \<exists>a. solutions st sid = Some a \<and> generation (heap e a) = g))
        \<and> (\<forall>sid\<in>dom (solutions st).
             \<exists>!g. \<exists>ids. generationHistory st g = Some ids \<and> sid \<in> set ids)
        \<and> (\<forall>g ids. generationHistory st g = Some ids \<longrightarrow> distinct ids))"

text \<open>A sequence of requests in which every id passed to \<open>addSolution\<close> is new.\<close>

fun fresh_run :: "operation list \<Rightarrow> Engine \<Rightarrow> bool" where
  "fresh_run [] e = True"
| "fresh_run (op # ops) e = (fresh_id op e \<and> fresh_run ops (snd (callTool op e)))"

text \<open>\<open>scenario_C\<close>, advanced to generation 1, with a third solution added there.\<close>

definition scenario_E :: "operation list" where
  "scenario_E = scenario_C @
     [evolve_generation, add_solution ''s3'' 3 (Some (scenario_add ''z''))]"

section \<open>Auxiliary facts\<close>

lemma js_overflow_bounds: "10 ^ 308 < js_overflow \<and> js_overflow < 2 * 10 ^ 308"
  by (simp add: js_overflow_def)

lemma js_number_small: "- 1000 \<le> r \<Longrightarrow> r \<le> 1000 \<Longrightarrow> js_number r = Finite r"
  using js_overflow_bounds by (simp add: js_number_def)

lemma js_number_Finite: "- js_overflow < r \<Longrightarrow> r < js_overflow \<Longrightarrow> js_number r = Finite r"
  by (simp add: js_number_def)

lemmas ops_defs = startEvolution_def addSolution_def scoreSolution_def
  evolveGeneration_def getEvolutionStatus_def

lemmas model_defs = string_of_nat.simps enumerate_eq_zip normalizeCheck_def or_default_def
  composite_def
  totalWeightedScore_def totalWeight_def js_div_def Let_def withScore_def updatedBest_def
  js_number_small

lemmas eval_defs = scenario_start_def scenario_add_def scenario_score_def initialEngine_def
  model_defs

lemma js_gt_irrefl: "\<not> js_gt x x"
  by (cases x) auto

lemma run_A: "run scenario_A initialEngine =
  \<lparr>evolutionState = Some
     \<lparr>problemStatement = ''p'',
      consistencyChecks =
        [\<lparr>id_check = ''check_1'', description = Some ''fast'', weight = JsNumber 1\<rparr>,
         \<lparr>id_check = ''check_2'', description = Some ''correct'', weight = JsNumber 1\<rparr>],
      currentGeneration = 0, maxGenerations = JsNumber 5, populationSize = JsNumber 3,
      convergenceThreshold = JsNumber (19 / 20),
      solutions = [''s1'' \<mapsto> 0, ''s2'' \<mapsto> 1],
      generationHistory = [0 \<mapsto> [''s1'', ''s2'']],
      bestSolution = None, isComplete = False, startTime = 0\<rparr>,
   heap = (\<lambda>a. unallocated)
      (0 := \<lparr>id_solution = ''s1'', content = ''x'', generation = 0, scores = [],
              compositeScore = Finite 0, parentSolutions = [], timestamp = 1\<rparr>,
       1 := \<lparr>id_solution = ''s2'', content = ''y'', generation = 0, scores = [],
              compositeScore = Finite 0, parentSolutions = [], timestamp = 2\<rparr>),
   next_addr = 2\<rparr>"
  by (simp add: scenario_A_def ops_defs eval_defs)

lemma run_B: "run scenario_B initialEngine =
  \<lparr>evolutionState = Some
     \<lparr>problemStatement = ''p'',
      consistencyChecks =
        [\<lparr>id_check = ''check_1'', description = Some ''fast'', weight = JsNumber 1\<rparr>,
         \<lparr>id_check = ''check_2'', description = Some ''correct'', weight = JsNumber 1\<rparr>],
      currentGeneration = 0, maxGenerations = JsNumber 5, populationSize = JsNumber 3,
      convergenceThreshold = JsNumber (19 / 20),
      solutions = [''s1'' \<mapsto> 0, ''s2'' \<mapsto> 1],
      generationHistory = [0 \<mapsto> [''s1'', ''s2'']],
      bestSolution = Some 0, isComplete = False, startTime = 0\<rparr>,
   heap = (\<lambda>a. unallocated)
      (0 := \<lparr>id_solution = ''s1'', content = ''x'', generation = 0,
              scores = [(''check_1'', 1), (''check_2'', 1)],
              compositeScore = Finite 1, parentSolutions = [], timestamp = 1\<rparr>,
       1 := \<lparr>id_solution = ''s2'', content = ''y'', generation = 0, scores = [],
              compositeScore = Finite 0, parentSolutions = [], timestamp = 2\<rparr>),
   next_addr = 2\<rparr>"
  by (simp add: scenario_B_def scenario_A_def ops_defs eval_defs fun_upd_twist)

text \<open>What a successful \<open>scoreSolution\<close> call has checked and done.\<close>

lemma scoreSolution_Inr:
  assumes "scoreSolution input e = (Inr rep, e')"
  obtains st data sid cid sc a chk c where
    "evolutionState e = Some st" "input = Some data"
    "solutionId_arg data = Some sid" "sid \<noteq> []"
    "checkId_arg data = Some cid" "cid \<noteq> []"
    "score_arg data = Some sc" "0 \<le> sc" "sc \<le> 1"
    "solutions st sid = Some a"
    "find (\<lambda>c. id_check c = cid) (consistencyChecks st) = Some chk"
    "composite (consistencyChecks st) (AList.update cid sc (scores (heap e a))) = Some c"
    "e' = e\<lparr>evolutionState := Some (st\<lparr>bestSolution :=
               updatedBest (bestSolution st) a
                 ((heap e)(a := (withScore cid sc (heap e a))\<lparr>compositeScore := c\<rparr>))\<rparr>),
             heap := (heap e)(a := (withScore cid sc (heap e a))\<lparr>compositeScore := c\<rparr>)\<rparr>"
    "rep = Scored (id_solution (heap e a)) cid sc c
             (length (AList.update cid sc (scores (heap e a))))
             (length (consistencyChecks st))
             (length (AList.update cid sc (scores (heap e a)))
                = length (consistencyChecks st))"
  using assms
  by (auto simp add: scoreSolution_def Let_def withScore_def split: option.splits if_splits)

lemma withScore_twice:
  "withScore cid sc ((withScore cid sc s)\<lparr>compositeScore := c\<rparr>)
     = (withScore cid sc s)\<lparr>compositeScore := c\<rparr>"
  by (simp add: withScore_def)

lemma updatedBest_twice:
  "updatedBest (updatedBest best a h) a h = updatedBest best a h"
  by (auto simp add: updatedBest_def js_gt_irrefl split: option.splits)

text \<open>Scoring the first solution of \<open>scenario_A\<close> with 0.5 on the first check.\<close>

lemma score_A:
  "scoreSolution (Some (scenario_score ''s1'' ''check_1'' (1 / 2))) (run scenario_A initialEngine) =
     (Inr (Scored ''s1'' ''check_1'' (1 / 2) (Finite (1 / 4)) 1 2 False),
      snd (scoreSolution (Some (scenario_score ''s1'' ''check_1'' (1 / 2)))
             (run scenario_A initialEngine)))"
  by (simp add: prod_eq_iff run_A scoreSolution_def scenario_score_def model_defs)

lemma score_B:
  "scoreSolution (Some (scenario_score ''s1'' ''check_1'' (1 / 2))) (run scenario_B initialEngine) =
     (Inr (Scored ''s1'' ''check_1'' (1 / 2) (Finite (3 / 4)) 2 2 True),
      snd (scoreSolution (Some (scenario_score ''s1'' ''check_1'' (1 / 2)))
             (run scenario_B initialEngine)))"
  by (simp add: prod_eq_iff run_B scoreSolution_def scenario_score_def model_defs)


lemma set_update_cases:
  "(k, v) \<in> set (AList.update k' v' al) \<Longrightarrow> (k, v) = (k', v') \<or> (k, v) \<in> set al"
  by (induction al) (auto split: if_splits)

lemma js_overflow_gt_one: "1 < js_overflow"
  using js_overflow_bounds by simp

lemma sum_list_nonneg_real: "\<forall>w\<in>set ws. (0::real) \<le> w \<Longrightarrow> 0 \<le> sum_list ws"
  by (induction ws) simp_all

lemma totalWeight_fold:
  assumes "map weight checks = map JsNumber ws"
    and "\<forall>w\<in>set ws. 0 \<le> w"
    and "0 \<le> a"
    and "a + sum_list ws < js_overflow"
  shows "foldl (\<lambda>sum check.
              case sum of
                None \<Rightarrow> None
              | Some s \<Rightarrow>
                  (case toNumber (weight check) of
                     None \<Rightarrow> None
                   | Some w \<Rightarrow> Some (js_add s w)))
           (Some (Finite a)) checks = Some (Finite (a + sum_list ws))"
  using assms
proof (induction checks arbitrary: ws a)
  case Nil
  then show ?case by simp
next
  case (Cons c cs)
  from Cons.prems(1) obtain w ws' where ws: "ws = w # ws'" "weight c = JsNumber w"
    "map weight cs = map JsNumber ws'" by (cases ws) auto
  from Cons.prems(2) ws(1) have w0: "0 \<le> w" and ws0: "\<forall>w\<in>set ws'. 0 \<le> w" by simp_all
  from ws0 have s0: "0 \<le> sum_list ws'" by (rule sum_list_nonneg_real)
  have lt: "a + w + sum_list ws' < js_overflow" using Cons.prems(4) ws(1) by simp
  have n1: "js_number w = Finite w"
    using w0 s0 lt Cons.prems(3) js_overflow_gt_one by (intro js_number_Finite) linarith+
  have n2: "js_number (a + w) = Finite (a + w)"
    using w0 s0 lt Cons.prems(3) js_overflow_gt_one by (intro js_number_Finite) linarith+
  have a0: "0 \<le> a + w" using w0 Cons.prems(3) by simp
  from Cons.IH[OF ws(3) ws0 a0 lt] show ?case
    by (simp add: ws(1,2) n1 n2 add.assoc)
qed

lemma totalWeight_finite:
  assumes "map weight checks = map JsNumber ws"
    and "\<forall>w\<in>set ws. 0 \<le> w"
    and "sum_list ws < js_overflow"
  shows "totalWeight checks = Some (Finite (sum_list ws))"
  using totalWeight_fold[OF assms(1,2), of 0] assms(3)
  by (simp add: totalWeight_def)

text \<open>With non-negative weights, the total weight is finite only if no partial sum overflows.\<close>

lemma totalWeight_fold_infinite:
  assumes "map weight checks = map JsNumber ws"
    and "\<forall>w\<in>set ws. 0 \<le> w"
  shows "foldl (\<lambda>sum check.
              case sum of
                None \<Rightarrow> None
              | Some s \<Rightarrow>
                  (case toNumber (weight check) of
                     None \<Rightarrow> None
                   | Some w \<Rightarrow> Some (js_add s w)))
           (Some PosInfinity) checks = Some PosInfinity"
  using assms
proof (induction checks arbitrary: ws)
  case Nil
  then show ?case by simp
next
  case (Cons c cs)
  from Cons.prems(1) obtain w ws' where ws: "ws = w # ws'" "weight c = JsNumber w"
    "map weight cs = map JsNumber ws'" by (cases ws) auto
  from Cons.prems(2) ws(1) have w0: "0 \<le> w" and ws0: "\<forall>w\<in>set ws'. 0 \<le> w" by simp_all
  have "js_number w = Finite w \<or> js_number w = PosInfinity"
    using w0 js_overflow_gt_one by (simp add: js_number_def)
  then have "js_add PosInfinity (js_number w) = PosInfinity" by auto
  with Cons.IH[OF ws(3) ws0] show ?case by (simp add: ws(2))
qed

lemma totalWeight_fold_overflow:
  assumes "map weight checks = map JsNumber ws"
    and "\<forall>w\<in>set ws. 0 \<le> w"
    and "0 \<le> a"
    and "js_overflow \<le> a + sum_list ws"
    and "a < js_overflow"
  shows "foldl (\<lambda>sum check.
              case sum of
                None \<Rightarrow> None
              | Some s \<Rightarrow>
                  (case toNumber (weight check) of
                     None \<Rightarrow> None
                   | Some w \<Rightarrow> Some (js_add s w)))
           (Some (Finite a)) checks = Some PosInfinity"
  using assms
proof (induction checks arbitrary: ws a)
  case Nil
  then show ?case by simp
next
  case (Cons c cs)
  from Cons.prems(1) obtain w ws' where ws: "ws = w # ws'" "weight c = JsNumber w"
    "map weight cs = map JsNumber ws'" by (cases ws) auto
  from Cons.prems(2) ws(1) have w0: "0 \<le> w" and ws0: "\<forall>w\<in>set ws'. 0 \<le> w" by simp_all
  have ge: "js_overflow \<le> a + w + sum_list ws'" using Cons.prems(4) ws(1) by simp
  have a0: "0 \<le> a + w" using w0 Cons.prems(3) by simp
  show ?case
  proof (cases "a + w < js_overflow")
    case True
    then have "w < js_overflow" using Cons.prems(3) by linarith
    then have n1: "js_number w = Finite w"
      using w0 js_overflow_gt_one by (intro js_number_Finite) linarith+
    have n2: "js_number (a + w) = Finite (a + w)"
      using a0 True js_overflow_gt_one by (intro js_number_Finite) linarith+
    from Cons.IH[OF ws(3) ws0 a0 ge True] show ?thesis
      by (simp add: ws(2) n1 n2)
  next
    case False
    have "js_add (Finite a) (js_number w) = PosInfinity"
    proof (cases "js_overflow \<le> w")
      case True
      then show ?thesis by (simp add: js_number_def)
    next
      case w: False
      then have "js_number w = Finite w"
        using w0 js_overflow_gt_one by (intro js_number_Finite) linarith+
      then show ?thesis using False by (simp add: js_number_def)
    qed
    with totalWeight_fold_infinite[OF ws(3) ws0] show ?thesis by (simp add: ws(2))
  qed
qed

lemma totalWeight_Finite:
  assumes "map weight checks = map JsNumber ws"
    and "\<forall>w\<in>set ws. 0 \<le> w"
    and "totalWeight checks = Some (Finite t)"
  shows "t = sum_list ws \<and> sum_list ws < js_overflow"
proof (cases "sum_list ws < js_overflow")
  case True
  from totalWeight_finite[OF assms(1,2) True] assms(3) True show ?thesis by simp
next
  case False
  have "0 < js_overflow" using js_overflow_gt_one by simp
  from totalWeight_fold_overflow[OF assms(1,2), of 0] False this
  have "totalWeight checks = Some PosInfinity" by (simp add: totalWeight_def)
  with assms(3) show ?thesis by simp
qed

lemma totalWeightedScore_fold:
  assumes "map weight checks = map JsNumber ws"
    and "\<forall>w\<in>set ws. 0 \<le> w"
    and "\<forall>c. 0 \<le> f c \<and> f c \<le> 1"
    and "0 \<le> a"
    and "a + sum_list ws < js_overflow"
  shows "\<exists>t. foldl (\<lambda>sum check.
              case sum of
                None \<Rightarrow> None
              | Some s \<Rightarrow>
                  (case toNumber (weight check) of
                     None \<Rightarrow> None
                   | Some w \<Rightarrow> Some (js_add s (js_mul (Finite (f check)) w))))
           (Some (Finite a)) checks = Some (Finite t) \<and> a \<le> t \<and> t \<le> a + sum_list ws"
  using assms(1,2,4,5)
proof (induction checks arbitrary: ws a)
  case Nil
  then show ?case by simp
next
  case (Cons c cs)
  from Cons.prems(1) obtain w ws' where ws: "ws = w # ws'" "weight c = JsNumber w"
    "map weight cs = map JsNumber ws'" by (cases ws) auto
  from Cons.prems(2) ws(1) have w0: "0 \<le> w" and ws0: "\<forall>w\<in>set ws'. 0 \<le> w" by simp_all
  from ws0 have s0: "0 \<le> sum_list ws'" by (rule sum_list_nonneg_real)
  have lt: "a + w + sum_list ws' < js_overflow" using Cons.prems(4) ws(1) by simp
  from assms(3) have f: "0 \<le> f c" "f c \<le> 1" by simp_all
  have p0: "0 \<le> f c * w" using f(1) w0 by simp
  have p1: "f c * w \<le> w" using f w0 by (simp add: mult_left_le_one_le)
  have n1: "js_number w = Finite w"
    using w0 s0 lt Cons.prems(3) by (intro js_number_Finite) linarith+
  have n2: "js_number (f c * w) = Finite (f c * w)"
    using p0 p1 w0 s0 lt Cons.prems(3) by (intro js_number_Finite) linarith+
  have n3: "js_number (a + f c * w) = Finite (a + f c * w)"
    using p0 p1 w0 s0 lt Cons.prems(3) by (intro js_number_Finite) linarith+
  have a0: "0 \<le> a + f c * w" using p0 Cons.prems(3) by simp
  have lt': "a + f c * w + sum_list ws' < js_overflow" using lt p1 by linarith
  from Cons.IH[OF ws(3) ws0 a0 lt'] obtain t where
    t: "foldl (\<lambda>sum check.
              case sum of
                None \<Rightarrow> None
              | Some s \<Rightarrow>
                  (case toNumber (weight check) of
                     None \<Rightarrow> None
                   | Some w \<Rightarrow> Some (js_add s (js_mul (Finite (f check)) w))))
           (Some (Finite (a + f c * w))) cs = Some (Finite t)"
      "a + f c * w \<le> t" "t \<le> a + f c * w + sum_list ws'" by blast
  have "a \<le> t" using t(2) p0 by linarith
  moreover have "t \<le> a + sum_list ws" using t(3) p1 ws(1) by simp
  ultimately show ?case
    using t(1) by (simp add: ws(2) n1 n2 n3)
qed

lemma composite_unit_interval:
  assumes w: "map weight checks = map JsNumber ws"
    and nn: "\<forall>w\<in>set ws. 0 \<le> w"
    and pos: "0 < sum_list ws"
    and fin: "sum_list ws < js_overflow"
    and sc: "\<forall>(k, v)\<in>set sc. 0 \<le> v \<and> v \<le> 1"
  shows "\<exists>x. composite checks sc = Some (Finite x) \<and> 0 \<le> x \<and> x \<le> 1"
proof -
  let ?s = "\<lambda>c. case map_of sc (id_check c) of None \<Rightarrow> (0::real) | Some v \<Rightarrow> v"
  have s01: "\<forall>c. 0 \<le> ?s c \<and> ?s c \<le> 1"
    using sc by (auto split: option.splits dest!: map_of_SomeD)
  from totalWeightedScore_fold[OF w nn s01, of 0] fin obtain t where
    t: "totalWeightedScore checks sc = Some (Finite t)" "0 \<le> t" "t \<le> sum_list ws"
    by (auto simp add: totalWeightedScore_def)
  note tw = totalWeight_finite[OF w nn fin]
  have q: "0 \<le> t / sum_list ws" "t / sum_list ws \<le> 1"
    using t(2,3) pos by simp_all
  have "js_number (t / sum_list ws) = Finite (t / sum_list ws)"
    using q js_overflow_gt_one by (intro js_number_Finite) linarith+
  then show ?thesis
    using t(1) tw q pos by (simp add: composite_def js_div_def)
qed

text \<open>What a successful \<open>evolveGeneration\<close> call has checked and done.\<close>

lemma evolveGeneration_Inr:
  assumes "evolveGeneration e = (Inr rep, e')"
  obtains st first rest recs threshold cap where
    "evolutionState e = Some st"
    "currentGenerationSolutions st \<noteq> []"
    "fullyScored e st = Some (first # rest)"
    "those (map (recommend first rest) (consistencyChecks st)) = Some recs"
    "toNumber (convergenceThreshold st) = Some threshold"
    "toNumber (maxGenerations st) = Some cap"
    "(if js_ge (Math_max (map compositeScore (first # rest))) threshold
          \<or> js_ge (Finite (real (currentGeneration st))) (js_add cap (Finite (- 1)))
      then rep = Complete
                   (if js_ge (Math_max (map compositeScore (first # rest))) threshold
                    then Convergence else MaxGenerations)
                   (currentGeneration st) (map_option (heap e) (bestSolution st))
                   (Math_max (map compositeScore (first # rest))) (averageScore (first # rest))
           \<and> e' = e\<lparr>evolutionState := Some (st\<lparr>isComplete := True\<rparr>)\<rparr>
      else rep = Evolved (currentGeneration st + 1) (averageScore (first # rest))
                   (Math_max (map compositeScore (first # rest))) (length (first # rest)) recs
           \<and> e' = e\<lparr>evolutionState :=
                      Some (st\<lparr>currentGeneration := currentGeneration st + 1\<rparr>)\<rparr>)"
  using assms
  by (auto simp add: evolveGeneration_def Let_def split: option.splits if_splits list.splits)

text \<open>\<open>Math.max\<close> returns a greatest argument, unless one is \<open>NaN\<close>.\<close>

lemma js_max2_cases:
  assumes "a \<noteq> NaN" "b \<noteq> NaN"
  shows "js_max2 a b \<noteq> NaN \<and> (js_max2 a b = a \<or> js_max2 a b = b)
         \<and> js_ge (js_max2 a b) a \<and> js_ge (js_max2 a b) b"
  using assms by (cases a; cases b) auto

lemma js_ge_trans: "js_ge a b \<Longrightarrow> js_ge b c \<Longrightarrow> js_ge a c"
  by (cases a; cases b; cases c) auto

lemma js_ge_NegInfinity: "js_ge NegInfinity x \<Longrightarrow> x = NegInfinity"
  by (cases x) auto

lemma foldl_js_max2_NaN: "foldl js_max2 NaN xs = NaN"
  by (induction xs) simp_all

lemma foldl_js_max2_has_NaN: "NaN \<in> set xs \<Longrightarrow> foldl js_max2 a xs = NaN"
proof (induction xs arbitrary: a)
  case Nil
  then show ?case by simp
next
  case (Cons x xs)
  show ?case
  proof (cases "x = NaN")
    case True
    then have "js_max2 a x = NaN" by (cases a) simp_all
    then show ?thesis by (simp add: foldl_js_max2_NaN)
  next
    case False
    with Cons.prems have "NaN \<in> set xs" by simp
    then show ?thesis using Cons.IH by simp
  qed
qed

lemma foldl_js_max2_no_NaN:
  assumes "a \<noteq> NaN" "NaN \<notin> set xs"
  shows "foldl js_max2 a xs \<noteq> NaN
         \<and> (foldl js_max2 a xs = a \<or> foldl js_max2 a xs \<in> set xs)
         \<and> js_ge (foldl js_max2 a xs) a
         \<and> (\<forall>x\<in>set xs. js_ge (foldl js_max2 a xs) x)"
  using assms
proof (induction xs arbitrary: a)
  case Nil
  then show ?case by (cases a) simp_all
next
  case (Cons x xs)
  from Cons.prems have x: "x \<noteq> NaN" and xs: "NaN \<notin> set xs" by auto
  note m = js_max2_cases[OF Cons.prems(1) x]
  from m have m0: "js_max2 a x \<noteq> NaN" by simp
  note ih = Cons.IH[OF m0 xs]
  have 1: "foldl js_max2 (js_max2 a x) xs \<noteq> NaN" using ih by simp
  have 2: "foldl js_max2 (js_max2 a x) xs = a \<or> foldl js_max2 (js_max2 a x) xs \<in> set (x # xs)"
    using ih m by auto
  have 3: "js_ge (foldl js_max2 (js_max2 a x) xs) a"
    using ih m js_ge_trans by blast
  have 4: "js_ge (foldl js_max2 (js_max2 a x) xs) x"
    using ih m js_ge_trans by blast
  show ?case using 1 2 3 4 ih by simp
qed

lemma Math_max_char:
  assumes "xs \<noteq> []"
  shows "NaN \<in> set xs \<and> Math_max xs = NaN
         \<or> Math_max xs \<in> set xs \<and> (\<forall>x\<in>set xs. js_ge (Math_max xs) x)"
proof (cases "NaN \<in> set xs")
  case True
  then show ?thesis by (simp add: Math_max_def foldl_js_max2_has_NaN)
next
  case False
  have n: "NegInfinity \<noteq> NaN" by simp
  note f = foldl_js_max2_no_NaN[OF n False]
  have "Math_max xs \<in> set xs"
  proof (cases "foldl js_max2 NegInfinity xs = NegInfinity")
    case True
    from assms obtain x where x: "x \<in> set xs" by (cases xs) auto
    with f True have "js_ge NegInfinity x" by auto
    then have "x = NegInfinity" by (rule js_ge_NegInfinity)
    with x True show ?thesis by (simp add: Math_max_def)
  next
    case False
    with f show ?thesis by (auto simp add: Math_max_def)
  qed
  with f show ?thesis by (simp add: Math_max_def)
qed

lemmas evolve_defs = evolveGeneration_def fullyScored_def currentGenerationSolutions_def
  recommend_def bestForCheck_def scoreOn_def averageScore_def Math_max_def

lemma run_C: "run scenario_C initialEngine =
  \<lparr>evolutionState = Some
     \<lparr>problemStatement = ''p'',
      consistencyChecks = [\<lparr>id_check = ''check_1'', description = Some ''fast'', weight = JsNumber 1\<rparr>,
                           \<lparr>id_check = ''check_2'', description = Some ''correct'', weight = JsNumber 1\<rparr>],
      currentGeneration = 0, maxGenerations = JsNumber 5, populationSize = JsNumber 3,
      convergenceThreshold = JsNumber (19 / 20),
      solutions = [''s1'' \<mapsto> 0, ''s2'' \<mapsto> 1],
      generationHistory = [0 \<mapsto> [''s1'', ''s2'']],
      bestSolution = Some 1, isComplete = False, startTime = 0\<rparr>,
   heap = (\<lambda>a. unallocated)
      (0 := \<lparr>id_solution = ''s1'', content = ''x'', generation = 0,
              scores = [(''check_1'', 1 / 2), (''check_2'', 1 / 4)],
              compositeScore = Finite (3 / 8), parentSolutions = [], timestamp = 1\<rparr>,
       1 := \<lparr>id_solution = ''s2'', content = ''y'', generation = 0,
              scores = [(''check_1'', 1 / 2), (''check_2'', 1 / 2)],
              compositeScore = Finite (1 / 2), parentSolutions = [], timestamp = 2\<rparr>),
   next_addr = 2\<rparr>"
  by (simp add: scenario_C_def scenario_A_def ops_defs eval_defs fun_upd_twist)

lemma run_D: "run scenario_D initialEngine =
  \<lparr>evolutionState = Some
     \<lparr>problemStatement = ''p'',
      consistencyChecks = [\<lparr>id_check = ''check_1'', description = Some ''fast'', weight = JsNumber 1\<rparr>,
                           \<lparr>id_check = ''check_2'', description = Some ''correct'', weight = JsNumber 1\<rparr>],
      currentGeneration = 0, maxGenerations = JsNumber 1, populationSize = JsNumber 3,
      convergenceThreshold = JsNumber (19 / 20),
      solutions = [''s1'' \<mapsto> 0],
      generationHistory = [0 \<mapsto> [''s1'']],
      bestSolution = Some 0, isComplete = False, startTime = 0\<rparr>,
   heap = (\<lambda>a. unallocated)
      (0 := \<lparr>id_solution = ''s1'', content = ''x'', generation = 0,
              scores = [(''check_1'', 3 / 10), (''check_2'', 3 / 10)],
              compositeScore = Finite (3 / 10), parentSolutions = [], timestamp = 1\<rparr>),
   next_addr = 1\<rparr>"
  by (simp add: scenario_D_def ops_defs eval_defs fun_upd_twist)

lemma evolve_B:
  "evolveGeneration (run scenario_B initialEngine) =
     (Inr (Complete Convergence 0
             (Some \<lparr>id_solution = ''s1'', content = ''x'', generation = 0,
                    scores = [(''check_1'', 1), (''check_2'', 1)],
                    compositeScore = Finite 1, parentSolutions = [], timestamp = 1\<rparr>)
             (Finite 1) (Finite 1)),
      snd (evolveGeneration (run scenario_B initialEngine)))"
  by (simp add: prod_eq_iff run_B evolve_defs model_defs)

lemma evolve_C:
  "evolveGeneration (run scenario_C initialEngine) =
     (Inr (Evolved 1 (Finite (7 / 16)) (Finite (1 / 2)) 2
             [\<lparr>checkId = ''check_1'', bestSolutionId = ''s1'', score = Some (1 / 2)\<rparr>,
              \<lparr>checkId = ''check_2'', bestSolutionId = ''s2'', score = Some (1 / 2)\<rparr>]),
      snd (evolveGeneration (run scenario_C initialEngine)))"
  by (simp add: prod_eq_iff run_C evolve_defs model_defs)

lemma evolve_D:
  "evolveGeneration (run scenario_D initialEngine) =
     (Inr (Complete MaxGenerations 0
             (Some \<lparr>id_solution = ''s1'', content = ''x'', generation = 0,
                    scores = [(''check_1'', 3 / 10), (''check_2'', 3 / 10)],
                    compositeScore = Finite (3 / 10), parentSolutions = [], timestamp = 1\<rparr>)
             (Finite (3 / 10)) (Finite (3 / 10))),
      snd (evolveGeneration (run scenario_D initialEngine)))"
  by (simp add: prod_eq_iff run_D evolve_defs model_defs)


lemma those_map_Some: "those (map f xs) = Some ys \<Longrightarrow> map f xs = map Some ys"
  by (induction xs arbitrary: ys) (auto split: option.splits)

lemma those_map_nth:
  assumes "those (map f xs) = Some ys"
  shows "length ys = length xs \<and> (\<forall>i<length xs. f (xs ! i) = Some (ys ! i))"
proof -
  from assms have m: "map f xs = map Some ys" by (rule those_map_Some)
  then have l: "length ys = length xs" by (metis length_map)
  have "f (xs ! i) = Some (ys ! i)" if "i < length xs" for i
  proof -
    have "map f xs ! i = map Some ys ! i" using m by simp
    with that l show ?thesis by simp
  qed
  with l show ?thesis by blast
qed

lemma bestForCheck_snoc:
  "bestForCheck cid first (rest @ [x]) =
     (if scoreOn cid x > scoreOn cid (bestForCheck cid first rest) then x
      else bestForCheck cid first rest)"
  by (simp add: bestForCheck_def)

lemma bestForCheck_first_max:
  "\<exists>j<length (first # rest).
      bestForCheck cid first rest = (first # rest) ! j
    \<and> (\<forall>k<length (first # rest). scoreOn cid ((first # rest) ! k) \<le> scoreOn cid ((first # rest) ! j))
    \<and> (\<forall>k<j. scoreOn cid ((first # rest) ! k) < scoreOn cid ((first # rest) ! j))"
proof (induction rest rule: rev_induct)
  case Nil
  show ?case by (simp add: bestForCheck_def)
next
  case (snoc x rest)
  let ?xs = "first # rest"
  from snoc obtain j where j: "j < length ?xs" "bestForCheck cid first rest = ?xs ! j"
    and mx: "\<forall>k<length ?xs. scoreOn cid (?xs ! k) \<le> scoreOn cid (?xs ! j)"
    and fst: "\<forall>k<j. scoreOn cid (?xs ! k) < scoreOn cid (?xs ! j)"
    by blast
  have app: "first # (rest @ [x]) = ?xs @ [x]" by simp
  have old: "(?xs @ [x]) ! k = ?xs ! k" if "k < length ?xs" for k
    using that by (simp only: nth_append if_True)
  have new: "(?xs @ [x]) ! length ?xs = x"
    by (simp only: nth_append_length)
  show ?case
  proof (cases "scoreOn cid x > scoreOn cid (?xs ! j)")
    case True
    have b: "bestForCheck cid first (rest @ [x]) = (?xs @ [x]) ! length ?xs"
      using True j(2) new by (simp only: bestForCheck_snoc if_True)
    have lt: "\<forall>k<length ?xs. scoreOn cid ((?xs @ [x]) ! k) < scoreOn cid ((?xs @ [x]) ! length ?xs)"
      using mx True old new by (metis le_less_trans)
    have le: "\<forall>k<length (?xs @ [x]). scoreOn cid ((?xs @ [x]) ! k) \<le> scoreOn cid ((?xs @ [x]) ! length ?xs)"
    proof (intro allI impI)
      fix k assume "k < length (?xs @ [x])"
      then have "k < length ?xs \<or> k = length ?xs" by auto
      then show "scoreOn cid ((?xs @ [x]) ! k) \<le> scoreOn cid ((?xs @ [x]) ! length ?xs)"
        using lt by (auto simp del: nth_append_length)
    qed
    have "length ?xs < length (?xs @ [x])" by simp
    with b le lt show ?thesis unfolding app by blast
  next
    case False
    have b: "bestForCheck cid first (rest @ [x]) = (?xs @ [x]) ! j"
      using False j old[OF j(1)] by (simp only: bestForCheck_snoc if_False)
    have le: "\<forall>k<length (?xs @ [x]). scoreOn cid ((?xs @ [x]) ! k) \<le> scoreOn cid ((?xs @ [x]) ! j)"
    proof (intro allI impI)
      fix k assume "k < length (?xs @ [x])"
      then consider "k < length ?xs" | "k = length ?xs" by fastforce
      then show "scoreOn cid ((?xs @ [x]) ! k) \<le> scoreOn cid ((?xs @ [x]) ! j)"
      proof cases
        case 1
        then show ?thesis using mx old[OF 1] old[OF j(1)] by simp
      next
        case 2
        then show ?thesis using False new old[OF j(1)] by simp
      qed
    qed
    have lt: "\<forall>k<j. scoreOn cid ((?xs @ [x]) ! k) < scoreOn cid ((?xs @ [x]) ! j)"
    proof (intro allI impI)
      fix k assume k: "k < j"
      then have "k < length ?xs" using j(1) by simp
      then show "scoreOn cid ((?xs @ [x]) ! k) < scoreOn cid ((?xs @ [x]) ! j)"
        using fst k old old[OF j(1)] by simp
    qed
    have "j < length (?xs @ [x])" using j(1) by simp
    with b le lt show ?thesis unfolding app by blast
  qed
qed

lemma fullyScored_members:
  assumes "fullyScored e st = Some fs" "s \<in> set fs"
  shows "length (scores s) = length (consistencyChecks st)
         \<and> (\<exists>sid\<in>set (currentGenerationSolutions st). \<exists>a. solutions st sid = Some a \<and> s = heap e a)"
proof -
  from assms(1) obtain addrs where
    th: "those (map (solutions st) (currentGenerationSolutions st)) = Some addrs"
    and fs: "fs = filter (\<lambda>s. length (scores s) = length (consistencyChecks st)) (map (heap e) addrs)"
    by (auto simp add: fullyScored_def)
  from assms(2) fs obtain a where a: "a \<in> set addrs" "s = heap e a"
    and full: "length (scores s) = length (consistencyChecks st)" by auto
  from those_map_nth[OF th] have l: "length addrs = length (currentGenerationSolutions st)"
    and n: "\<forall>i<length (currentGenerationSolutions st).
              solutions st (currentGenerationSolutions st ! i) = Some (addrs ! i)" by auto
  from a(1) obtain i where i: "i < length addrs" "addrs ! i = a" by (auto simp add: in_set_conv_nth)
  with l n have "solutions st (currentGenerationSolutions st ! i) = Some a" by auto
  moreover have "currentGenerationSolutions st ! i \<in> set (currentGenerationSolutions st)"
    using i(1) l by simp
  ultimately show ?thesis using full a(2) by blast
qed

text \<open>Reachability of a run; the check ids are distinct.\<close>

lemma reachable_run: "reachable e \<Longrightarrow> fresh_run ops e \<Longrightarrow> reachable (run ops e)"
proof (induction ops arbitrary: e)
  case Nil
  then show ?case by simp
next
  case (Cons op ops)
  from Cons.prems have f: "fresh_id op e" and r: "fresh_run ops (snd (callTool op e))"
    by simp_all
  from Cons.prems(1) f have "reachable (snd (callTool op e))" by (rule reachable_call)
  from Cons.IH[OF this r] show ?case by simp
qed

lemma string_of_nat_nonempty: "string_of_nat n \<noteq> []"
  by (subst string_of_nat.simps) simp

lemma digit_inj: "a < 10 \<Longrightarrow> b < 10 \<Longrightarrow> ''0123456789'' ! a = ''0123456789'' ! b \<Longrightarrow> a = b"
proof -
  assume a: "a < 10" and b: "b < 10" and eq: "''0123456789'' ! a = ''0123456789'' ! b"
  have d: "distinct ''0123456789''" by simp
  have "a < length ''0123456789''" "b < length ''0123456789''" using a b by simp_all
  with d eq show "a = b" by (simp only: nth_eq_iff_index_eq)
qed

lemma string_of_nat_inj: "string_of_nat m = string_of_nat n \<Longrightarrow> m = n"
proof (induction m arbitrary: n rule: string_of_nat.induct)
  case (1 m)
  let ?d = "\<lambda>k. ''0123456789'' ! k"
  have unf: "\<And>k. string_of_nat k = (if k < 10 then [?d k] else string_of_nat (k div 10) @ [?d (k mod 10)])"
    by (rule string_of_nat.simps)
  show ?case
  proof (cases "m < 10")
    case True
    show ?thesis
    proof (cases "n < 10")
      case n: True
      from "1.prems" True n have "?d m = ?d n"
        by (simp add: unf[of m] unf[of n])
      then show ?thesis using True n digit_inj by blast
    next
      case n: False
      from "1.prems" True n have "[?d m] = string_of_nat (n div 10) @ [?d (n mod 10)]"
        by (simp add: unf[of m] unf[of n])
      then show ?thesis using string_of_nat_nonempty[of "n div 10"] by (cases "string_of_nat (n div 10)") auto
    qed
  next
    case False
    show ?thesis
    proof (cases "n < 10")
      case n: True
      from "1.prems" False n have "string_of_nat (m div 10) @ [?d (m mod 10)] = [?d n]"
        by (simp add: unf[of m] unf[of n])
      then show ?thesis using string_of_nat_nonempty[of "m div 10"] by (cases "string_of_nat (m div 10)") auto
    next
      case n: False
      from "1.prems" False n have eq: "string_of_nat (m div 10) @ [?d (m mod 10)] = string_of_nat (n div 10) @ [?d (n mod 10)]"
        by (simp add: unf[of m] unf[of n])
      then have a: "string_of_nat (m div 10) = string_of_nat (n div 10)" and b: "?d (m mod 10) = ?d (n mod 10)"
        by auto
      from "1.IH"[OF False a] have d: "m div 10 = n div 10" .
      have "m mod 10 < 10" "n mod 10 < 10" by simp_all
      with b have "m mod 10 = n mod 10" using digit_inj by blast
      with d show ?thesis by (metis div_mult_mod_eq)
    qed
  qed
qed

lemma normalizeCheck_id:
  "normalizeCheck (i, c) = Some chk \<Longrightarrow> id_check chk = ''check_'' @ string_of_nat (i + 1)"
  by (auto simp add: normalizeCheck_def split: check_arg.splits)

lemma normalized_ids_distinct:
  assumes "those (map normalizeCheck (enumerate 0 cs)) = Some checks"
  shows "distinct (map id_check checks)"
proof -
  from those_map_nth[OF assms] have len: "length checks = length cs"
    and nth: "\<forall>i<length cs. normalizeCheck (enumerate 0 cs ! i) = Some (checks ! i)"
    by simp_all
  have ids: "id_check (checks ! i) = ''check_'' @ string_of_nat (i + 1)" if "i < length cs" for i
  proof -
    from that nth have "normalizeCheck (i, cs ! i) = Some (checks ! i)"
      by (simp add: nth_enumerate_eq)
    then show ?thesis by (rule normalizeCheck_id)
  qed
  show ?thesis
  proof (subst distinct_conv_nth, intro allI impI)
    fix i j assume i: "i < length (map id_check checks)" and j: "j < length (map id_check checks)"
      and ne: "i \<noteq> j"
    from i j len have i': "i < length cs" and j': "j < length cs" by simp_all
    show "map id_check checks ! i \<noteq> map id_check checks ! j"
    proof
      assume "map id_check checks ! i = map id_check checks ! j"
      with i j have "id_check (checks ! i) = id_check (checks ! j)" by simp
      with ids[OF i'] ids[OF j'] have "string_of_nat (i + 1) = string_of_nat (j + 1)" by simp
      then have "i + 1 = j + 1" by (rule string_of_nat_inj)
      with ne show False by simp
    qed
  qed
qed

text \<open>Every operation preserves the well-formedness of the engine.\<close>

lemma startEvolution_inv:
  assumes "engine_inv e"
  shows "engine_inv (snd (startEvolution now input e))"
  using assms normalized_ids_distinct
  by (simp add: startEvolution_def Let_def engine_inv_def split: option.splits)

lemma addSolution_cases:
  "(\<exists>err. addSolution newId now input e = (Inl err, e))
   \<or> (\<exists>rep st c parents.
        evolutionState e = Some st
      \<and> addSolution newId now input e =
         (Inr rep,
          e\<lparr>evolutionState := Some (st\<lparr>solutions := (solutions st)(newId \<mapsto> next_addr e),
                 generationHistory := (generationHistory st)(currentGeneration st \<mapsto>
                    currentGenerationSolutions st @ [newId])\<rparr>),
            heap := (heap e)(next_addr e :=
               \<lparr>id_solution = newId, content = c, generation = currentGeneration st,
                scores = [], compositeScore = Finite 0, parentSolutions = parents,
                timestamp = now\<rparr>),
            next_addr := Suc (next_addr e)\<rparr>))"
  by (auto simp add: addSolution_def Let_def currentGenerationSolutions_def
      split: option.splits)

lemma addSolution_inv:
  assumes inv: "engine_inv e"
    and fresh: "fresh_id (add_solution newId now input) e"
  shows "engine_inv (snd (addSolution newId now input e))"
proof -
  consider (failed) err where "addSolution newId now input e = (Inl err, e)"
  | (added) rep st c parents where
      "evolutionState e = Some st"
      "addSolution newId now input e =
         (Inr rep,
          e\<lparr>evolutionState := Some (st\<lparr>solutions := (solutions st)(newId \<mapsto> next_addr e),
                 generationHistory := (generationHistory st)(currentGeneration st \<mapsto>
                    currentGenerationSolutions st @ [newId])\<rparr>),
            heap := (heap e)(next_addr e :=
               \<lparr>id_solution = newId, content = c, generation = currentGeneration st,
                scores = [], compositeScore = Finite 0, parentSolutions = parents,
                timestamp = now\<rparr>),
            next_addr := Suc (next_addr e)\<rparr>)"
    using addSolution_cases[of newId now input e] by blast
  then show ?thesis
  proof cases
  case (failed err)
  with inv show ?thesis by simp
next
  case (added rep st c parents)
  let ?a = "next_addr e"
  let ?g = "currentGeneration st"
  let ?sol = "\<lparr>id_solution = newId, content = c, generation = ?g,
                scores = [], compositeScore = Finite 0, parentSolutions = parents,
                timestamp = now\<rparr>"
  let ?h = "(heap e)(?a := ?sol)"
  let ?so = "(solutions st)(newId \<mapsto> ?a)"
  let ?gh = "(generationHistory st)(?g \<mapsto> currentGenerationSolutions st @ [newId])"
  from fresh added(1) have fr: "solutions st newId = None" by simp
  from inv added(1) have
    A: "distinct (map id_check (consistencyChecks st))"
    and B: "\<And>sid a. solutions st sid = Some a \<Longrightarrow>
               a < ?a \<and> distinct (map fst (scores (heap e a)))
             \<and> fst ` set (scores (heap e a)) \<subseteq> id_check ` set (consistencyChecks st)"
    and C: "\<And>g ids. generationHistory st g = Some ids \<Longrightarrow>
               distinct ids
             \<and> (\<forall>sid\<in>set ids. \<exists>a. solutions st sid = Some a \<and> generation (heap e a) = g)"
    and D: "\<And>sid a. solutions st sid = Some a \<Longrightarrow>
               (\<exists>g ids. generationHistory st g = Some ids \<and> sid \<in> set ids)"
    by (simp_all add: engine_inv_def)
  have old: "?h a = heap e a" if "solutions st sid = Some a" for sid a
    using B[OF that] by simp
  have cur: "distinct (currentGenerationSolutions st)
             \<and> (\<forall>sid\<in>set (currentGenerationSolutions st).
                   \<exists>a. solutions st sid = Some a \<and> generation (heap e a) = ?g)"
    using C[of ?g] by (auto simp add: currentGenerationSolutions_def split: option.splits)
  have notin: "newId \<notin> set (currentGenerationSolutions st)"
    using cur fr by auto
  have B': "a < Suc ?a \<and> distinct (map fst (scores (?h a)))
             \<and> fst ` set (scores (?h a)) \<subseteq> id_check ` set (consistencyChecks st)"
    if "?so sid = Some a" for sid a
  proof (cases "sid = newId")
    case True
    with that have "a = ?a" by simp
    then show ?thesis by simp
  next
    case False
    with that have s: "solutions st sid = Some a" by simp
    from B[OF s] old[OF s] show ?thesis by simp
  qed
  have member: "\<exists>a. ?so sid = Some a \<and> generation (?h a) = g"
    if "solutions st sid = Some a" "generation (heap e a) = g" for sid a g
  proof -
    from that(1) fr have "sid \<noteq> newId" by auto
    with that old[OF that(1)] show ?thesis by simp
  qed
  have C': "distinct ids \<and> (\<forall>sid\<in>set ids. \<exists>a. ?so sid = Some a \<and> generation (?h a) = g)"
    if "?gh g = Some ids" for g ids
  proof (cases "g = ?g")
    case True
    with that have ids: "ids = currentGenerationSolutions st @ [newId]" by simp
    have d: "distinct ids" using cur notin ids by simp
    have "\<exists>a. ?so sid = Some a \<and> generation (?h a) = g" if "sid \<in> set ids" for sid
    proof (cases "sid = newId")
      case True
      then show ?thesis using \<open>g = ?g\<close> by simp
    next
      case False
      with that ids have "sid \<in> set (currentGenerationSolutions st)" by simp
      with cur obtain a where "solutions st sid = Some a" "generation (heap e a) = ?g" by blast
      from member[OF this] \<open>g = ?g\<close> show ?thesis by simp
    qed
    with d show ?thesis by blast
  next
    case False
    with that have g: "generationHistory st g = Some ids" by simp
    have "\<exists>a. ?so sid = Some a \<and> generation (?h a) = g" if "sid \<in> set ids" for sid
    proof -
      from C[OF g] that obtain a where "solutions st sid = Some a" "generation (heap e a) = g"
        by blast
      from member[OF this] show ?thesis .
    qed
    with C[OF g] show ?thesis by blast
  qed
  have D': "\<exists>g ids. ?gh g = Some ids \<and> sid \<in> set ids" if "?so sid = Some a" for sid a
  proof (cases "sid = newId")
    case True
    have "?gh ?g = Some (currentGenerationSolutions st @ [newId])" by simp
    moreover have "sid \<in> set (currentGenerationSolutions st @ [newId])" using True by simp
    ultimately show ?thesis by blast
  next
    case False
    with that have "solutions st sid = Some a" by simp
    from D[OF this] obtain g ids where g: "generationHistory st g = Some ids" "sid \<in> set ids"
      by blast
    show ?thesis
    proof (cases "g = ?g")
      case True
      with g have "sid \<in> set (currentGenerationSolutions st)"
        by (simp add: currentGenerationSolutions_def)
      then have "sid \<in> set (currentGenerationSolutions st @ [newId])" by simp
      moreover have "?gh ?g = Some (currentGenerationSolutions st @ [newId])" by simp
      ultimately show ?thesis by blast
    next
      case False
      with g have "?gh g = Some ids" by simp
      with g(2) show ?thesis by blast
    qed
  qed
  show ?thesis
    unfolding added(2) engine_inv_def
    using A B' C' D' by simp
qed
qed






lemma getEvolutionStatus_unchanged: "snd (getEvolutionStatus e) = e"
  by (simp add: getEvolutionStatus_def split: option.splits)

lemma find_id_check:
  "find (\<lambda>c. id_check c = cid) checks = Some chk \<Longrightarrow> cid \<in> id_check ` set checks"
  by (auto simp add: find_Some_iff)

lemma scoreSolution_cases:
  "snd (scoreSolution input e) = e
   \<or> (\<exists>st cid sc a chk.
        evolutionState e = Some st
      \<and> find (\<lambda>c. id_check c = cid) (consistencyChecks st) = Some chk
      \<and> (snd (scoreSolution input e) = e\<lparr>heap := (heap e)(a := withScore cid sc (heap e a))\<rparr>
         \<or> (\<exists>c. snd (scoreSolution input e) =
                e\<lparr>evolutionState := Some (st\<lparr>bestSolution :=
                     updatedBest (bestSolution st) a
                       ((heap e)(a := (withScore cid sc (heap e a))\<lparr>compositeScore := c\<rparr>))\<rparr>),
                  heap := (heap e)(a := (withScore cid sc (heap e a))\<lparr>compositeScore := c\<rparr>)\<rparr>)))"
  by (auto simp add: scoreSolution_def Let_def split: option.splits)

lemma scoreSolution_inv:
  assumes inv: "engine_inv e"
  shows "engine_inv (snd (scoreSolution input e))"
proof -
  consider (same) "snd (scoreSolution input e) = e"
    | (stored) st cid sc a chk where
        "evolutionState e = Some st"
        "find (\<lambda>c. id_check c = cid) (consistencyChecks st) = Some chk"
        "snd (scoreSolution input e) = e\<lparr>heap := (heap e)(a := withScore cid sc (heap e a))\<rparr>"
    | (scored) st cid sc a chk c where
        "evolutionState e = Some st"
        "find (\<lambda>c. id_check c = cid) (consistencyChecks st) = Some chk"
        "snd (scoreSolution input e) =
                e\<lparr>evolutionState := Some (st\<lparr>bestSolution :=
                     updatedBest (bestSolution st) a
                       ((heap e)(a := (withScore cid sc (heap e a))\<lparr>compositeScore := c\<rparr>))\<rparr>),
                  heap := (heap e)(a := (withScore cid sc (heap e a))\<lparr>compositeScore := c\<rparr>)\<rparr>"
    using scoreSolution_cases[of input e] by blast
  then show ?thesis
  proof cases
    case same
    with inv show ?thesis by simp
  next
    case (stored st cid sc a chk)
    let ?h = "(heap e)(a := withScore cid sc (heap e a))"
    from inv stored(1) have
      A: "distinct (map id_check (consistencyChecks st))"
      and B: "\<And>sid a. solutions st sid = Some a \<Longrightarrow>
               a < next_addr e \<and> distinct (map fst (scores (heap e a)))
             \<and> fst ` set (scores (heap e a)) \<subseteq> id_check ` set (consistencyChecks st)"
      and C: "\<And>g ids. generationHistory st g = Some ids \<Longrightarrow>
               distinct ids
             \<and> (\<forall>sid\<in>set ids. \<exists>a. solutions st sid = Some a \<and> generation (heap e a) = g)"
      and D: "\<And>sid a. solutions st sid = Some a \<Longrightarrow>
               (\<exists>g ids. generationHistory st g = Some ids \<and> sid \<in> set ids)"
      by (simp_all add: engine_inv_def)
    have gen: "generation (?h b) = generation (heap e b)" for b
      by (simp add: withScore_def)
    have keys: "distinct (map fst (scores (?h b)))
             \<and> fst ` set (scores (?h b)) \<subseteq> id_check ` set (consistencyChecks st)"
      if "distinct (map fst (scores (heap e b)))"
         "fst ` set (scores (heap e b)) \<subseteq> id_check ` set (consistencyChecks st)" for b
      using that find_id_check[OF stored(2)]
      by (auto simp add: withScore_def distinct_update dom_update)
    have B': "b < next_addr e \<and> distinct (map fst (scores (?h b)))
             \<and> fst ` set (scores (?h b)) \<subseteq> id_check ` set (consistencyChecks st)"
      if "solutions st sid = Some b" for sid b
      using B[OF that] keys[of b] by blast
    have C': "distinct ids
             \<and> (\<forall>sid\<in>set ids. \<exists>a. solutions st sid = Some a \<and> generation (?h a) = g)"
      if "generationHistory st g = Some ids" for g ids
      using C[OF that] gen by simp
    show ?thesis
      unfolding stored(3) engine_inv_def
      using stored(1) A B' C' D by simp
  next
    case (scored st cid sc a chk c)
    let ?h = "(heap e)(a := (withScore cid sc (heap e a))\<lparr>compositeScore := c\<rparr>)"
    from inv scored(1) have
      A: "distinct (map id_check (consistencyChecks st))"
      and B: "\<And>sid a. solutions st sid = Some a \<Longrightarrow>
               a < next_addr e \<and> distinct (map fst (scores (heap e a)))
             \<and> fst ` set (scores (heap e a)) \<subseteq> id_check ` set (consistencyChecks st)"
      and C: "\<And>g ids. generationHistory st g = Some ids \<Longrightarrow>
               distinct ids
             \<and> (\<forall>sid\<in>set ids. \<exists>a. solutions st sid = Some a \<and> generation (heap e a) = g)"
      and D: "\<And>sid a. solutions st sid = Some a \<Longrightarrow>
               (\<exists>g ids. generationHistory st g = Some ids \<and> sid \<in> set ids)"
      by (simp_all add: engine_inv_def)
    have gen: "generation (?h b) = generation (heap e b)" for b
      by (simp add: withScore_def)
    have keys: "distinct (map fst (scores (?h b)))
             \<and> fst ` set (scores (?h b)) \<subseteq> id_check ` set (consistencyChecks st)"
      if "distinct (map fst (scores (heap e b)))"
         "fst ` set (scores (heap e b)) \<subseteq> id_check ` set (consistencyChecks st)" for b
      using that find_id_check[OF scored(2)]
      by (auto simp add: withScore_def distinct_update dom_update)
    have B': "b < next_addr e \<and> distinct (map fst (scores (?h b)))
             \<and> fst ` set (scores (?h b)) \<subseteq> id_check ` set (consistencyChecks st)"
      if "solutions st sid = Some b" for sid b
      using B[OF that] keys[of b] by blast
    have C': "distinct ids
             \<and> (\<forall>sid\<in>set ids. \<exists>a. solutions st sid = Some a \<and> generation (?h a) = g)"
      if "generationHistory st g = Some ids" for g ids
      using C[OF that] gen by simp
    show ?thesis
      unfolding scored(3) engine_inv_def
      using A B' C' D by simp
  qed
qed

lemma evolveGeneration_cases:
  "snd (evolveGeneration e) = e
   \<or> (\<exists>st. evolutionState e = Some st
        \<and> (snd (evolveGeneration e) = e\<lparr>evolutionState := Some (st\<lparr>isComplete := True\<rparr>)\<rparr>
           \<or> snd (evolveGeneration e) =
               e\<lparr>evolutionState := Some (st\<lparr>currentGeneration := currentGeneration st + 1\<rparr>)\<rparr>))"
  by (simp add: evolveGeneration_def Let_def split: option.splits list.splits)

lemma evolveGeneration_inv:
  assumes inv: "engine_inv e"
  shows "engine_inv (snd (evolveGeneration e))"
proof -
  consider "snd (evolveGeneration e) = e"
    | st where "evolutionState e = Some st"
        "snd (evolveGeneration e) = e\<lparr>evolutionState := Some (st\<lparr>isComplete := True\<rparr>)\<rparr>"
    | st where "evolutionState e = Some st"
        "snd (evolveGeneration e) =
           e\<lparr>evolutionState := Some (st\<lparr>currentGeneration := currentGeneration st + 1\<rparr>)\<rparr>"
    using evolveGeneration_cases[of e] by blast
  then show ?thesis
  proof cases
    case 1
    with inv show ?thesis by simp
  next
    case (2 st)
    with inv show ?thesis by (simp add: engine_inv_def)
  next
    case (3 st)
    with inv show ?thesis by (simp add: engine_inv_def)
  qed
qed

lemma callTool_inv:
  assumes "engine_inv e" "fresh_id op e"
  shows "engine_inv (snd (callTool op e))"
  using assms
  by (cases op)
     (simp_all add: startEvolution_inv addSolution_inv scoreSolution_inv evolveGeneration_inv
        getEvolutionStatus_unchanged del: fresh_id.simps)

lemma reachable_inv: "reachable e \<Longrightarrow> engine_inv e"
proof (induction rule: reachable.induct)
  case reachable_init
  show ?case by (simp add: engine_inv_def initialEngine_def)
next
  case (reachable_call e op)
  then show ?case by (simp add: callTool_inv)
qed




lemma run_append: "run (xs @ ys) e = run ys (run xs e)"
  by (induction xs arbitrary: e) simp_all

lemma fresh_run_append:
  "fresh_run (xs @ ys) e = (fresh_run xs e \<and> fresh_run ys (run xs e))"
  by (induction xs arbitrary: e) simp_all

lemma fresh_A: "fresh_run scenario_A initialEngine"
  by (simp add: scenario_A_def ops_defs eval_defs)


lemma fresh_C: "fresh_run scenario_C initialEngine"
  by (simp add: scenario_C_def fresh_run_append fresh_A)

lemma fresh_E: "fresh_run scenario_E initialEngine"
  by (simp add: scenario_E_def fresh_run_append fresh_C run_C evolve_defs model_defs)

lemma run_E_state:
  "evolutionState (run scenario_E initialEngine) = Some
     \<lparr>problemStatement = ''p'',
      consistencyChecks = [\<lparr>id_check = ''check_1'', description = Some ''fast'', weight = JsNumber 1\<rparr>,
                           \<lparr>id_check = ''check_2'', description = Some ''correct'', weight = JsNumber 1\<rparr>],
      currentGeneration = 1, maxGenerations = JsNumber 5, populationSize = JsNumber 3,
      convergenceThreshold = JsNumber (19 / 20),
      solutions = [''s1'' \<mapsto> 0, ''s2'' \<mapsto> 1, ''s3'' \<mapsto> 2],
      generationHistory = [0 \<mapsto> [''s1'', ''s2''], 1 \<mapsto> [''s3'']],
      bestSolution = Some 1, isComplete = False, startTime = 0\<rparr>"
  by (simp add: scenario_E_def run_append run_C evolve_defs addSolution_def scenario_add_def
      model_defs)

lemma run_E_generations:
  "map (\<lambda>a. generation (heap (run scenario_E initialEngine) a)) [0, 1, 2] = [0, 0, 1]"
  by (simp add: scenario_E_def run_append run_C evolve_defs addSolution_def scenario_add_def
      model_defs)



lemma big_number: "js_number weight_1e308 = Finite weight_1e308"
  using js_overflow_bounds by (intro js_number_Finite) (simp_all add: weight_1e308_def)

lemma big_sum: "js_number (weight_1e308 + weight_1e308) = PosInfinity"
  "js_number (2 * weight_1e308) = PosInfinity"
  using js_overflow_bounds by (simp_all add: js_number_def weight_1e308_def)

lemma big_nonzero: "weight_1e308 \<noteq> 0" "0 < weight_1e308"
  by (simp_all add: weight_1e308_def)

lemma run_W: "run scenario_W initialEngine =
  \<lparr>evolutionState = Some
     \<lparr>problemStatement = ''p'',
      consistencyChecks =
        [\<lparr>id_check = ''check_1'', description = Some ''fast'', weight = JsNumber weight_1e308\<rparr>,
         \<lparr>id_check = ''check_2'', description = Some ''correct'', weight = JsNumber weight_1e308\<rparr>],
      currentGeneration = 0, maxGenerations = JsNumber 5, populationSize = JsNumber 3,
      convergenceThreshold = JsNumber (19 / 20),
      solutions = [''s1'' \<mapsto> 0],
      generationHistory = [0 \<mapsto> [''s1'']],
      bestSolution = Some 0, isComplete = False, startTime = 0\<rparr>,
   heap = (\<lambda>a. unallocated)
      (0 := \<lparr>id_solution = ''s1'', content = ''x'', generation = 0,
              scores = [(''check_1'', 1)],
              compositeScore = Finite 0, parentSolutions = [], timestamp = 1\<rparr>),
   next_addr = 1\<rparr>"
  by (simp add: scenario_W_def startEvolution_def addSolution_def scoreSolution_def
      scenario_start_def scenario_add_def scenario_score_def initialEngine_def
      string_of_nat.simps enumerate_eq_zip normalizeCheck_def or_default_def composite_def
      totalWeightedScore_def totalWeight_def Let_def withScore_def updatedBest_def
      big_number big_sum big_nonzero js_number_small)


lemma toNumber_or_default: "(toNumber (or_default x d) = None) = (x = Some JsUnconvertible)"
proof (cases x)
  case None
  then show ?thesis by (simp add: or_default_def)
next
  case (Some v)
  then show ?thesis by (cases v) (simp_all add: or_default_def)
qed


section \<open>The claims\<close>

subsection \<open>C1: the best composite score over a session\<close>




subsection \<open>C2: the order of the termination checks\<close>

text \<open>
  C2: a successful \<open>evolveGeneration\<close> call takes the score \<open>Math.max\<close> returns for the
  composite scores of the fully scored solutions of the current generation (a greatest
  one of them, unless one is \<open>NaN\<close>); the session's \<open>convergenceThreshold\<close> and
  \<open>maxGenerations\<close> convert to numbers. If that score is at least the convergence
  threshold, the payload is a completion with reason convergence; otherwise, if
  \<open>currentGeneration >= maxGenerations - 1\<close>, a completion with reason max_generations;
  in both cases the only change of the engine is \<open>isComplete := true\<close>. Otherwise the
  payload is an evolved report and the only change is \<open>currentGeneration\<close> incremented by
  one.
\<close>

theorem evolveGeneration_termination_order:
  assumes "evolveGeneration e = (Inr rep, e')"
  shows "\<exists>st fs threshold cap.
     evolutionState e = Some st \<and> fullyScored e st = Some fs \<and> fs \<noteq> []
   \<and> toNumber (convergenceThreshold st) = Some threshold
   \<and> toNumber (maxGenerations st) = Some cap
   \<and> (NaN \<in> set (map compositeScore fs) \<and> Math_max (map compositeScore fs) = NaN
        \<or> Math_max (map compositeScore fs) \<in> set (map compositeScore fs)
          \<and> (\<forall>s\<in>set fs. js_ge (Math_max (map compositeScore fs)) (compositeScore s)))
   \<and> (if js_ge (Math_max (map compositeScore fs)) threshold
       then (\<exists>best avg. rep = Complete Convergence (currentGeneration st) best
                               (Math_max (map compositeScore fs)) avg)
            \<and> e' = e\<lparr>evolutionState := Some (st\<lparr>isComplete := True\<rparr>)\<rparr>
       else if js_ge (Finite (real (currentGeneration st))) (js_add cap (Finite (- 1)))
       then (\<exists>best avg. rep = Complete MaxGenerations (currentGeneration st) best
                               (Math_max (map compositeScore fs)) avg)
            \<and> e' = e\<lparr>evolutionState := Some (st\<lparr>isComplete := True\<rparr>)\<rparr>
       else (\<exists>avg recs. rep = Evolved (currentGeneration st + 1) avg
                               (Math_max (map compositeScore fs)) (length fs) recs)
            \<and> e' = e\<lparr>evolutionState :=
                       Some (st\<lparr>currentGeneration := currentGeneration st + 1\<rparr>)\<rparr>)"
proof -
  from assms obtain st first rest recs threshold cap where
    st: "evolutionState e = Some st"
    and fs: "fullyScored e st = Some (first # rest)"
    and th: "toNumber (convergenceThreshold st) = Some threshold"
    and cap: "toNumber (maxGenerations st) = Some cap"
    and out: "(if js_ge (Math_max (map compositeScore (first # rest))) threshold
          \<or> js_ge (Finite (real (currentGeneration st))) (js_add cap (Finite (- 1)))
      then rep = Complete
                   (if js_ge (Math_max (map compositeScore (first # rest))) threshold
                    then Convergence else MaxGenerations)
                   (currentGeneration st) (map_option (heap e) (bestSolution st))
                   (Math_max (map compositeScore (first # rest))) (averageScore (first # rest))
           \<and> e' = e\<lparr>evolutionState := Some (st\<lparr>isComplete := True\<rparr>)\<rparr>
      else rep = Evolved (currentGeneration st + 1) (averageScore (first # rest))
                   (Math_max (map compositeScore (first # rest))) (length (first # rest)) recs
           \<and> e' = e\<lparr>evolutionState :=
                      Some (st\<lparr>currentGeneration := currentGeneration st + 1\<rparr>)\<rparr>)"
    by (rule evolveGeneration_Inr)
  have ne: "map compositeScore (first # rest) \<noteq> []" by simp
  have mx: "NaN \<in> set (map compositeScore (first # rest))
              \<and> Math_max (map compositeScore (first # rest)) = NaN
        \<or> Math_max (map compositeScore (first # rest)) \<in> set (map compositeScore (first # rest))
          \<and> (\<forall>s\<in>set (first # rest).
                js_ge (Math_max (map compositeScore (first # rest))) (compositeScore s))"
    using Math_max_char[OF ne] by auto
  have br: "(if js_ge (Math_max (map compositeScore (first # rest))) threshold
       then (\<exists>best avg. rep = Complete Convergence (currentGeneration st) best
                               (Math_max (map compositeScore (first # rest))) avg)
            \<and> e' = e\<lparr>evolutionState := Some (st\<lparr>isComplete := True\<rparr>)\<rparr>
       else if js_ge (Finite (real (currentGeneration st))) (js_add cap (Finite (- 1)))
       then (\<exists>best avg. rep = Complete MaxGenerations (currentGeneration st) best
                               (Math_max (map compositeScore (first # rest))) avg)
            \<and> e' = e\<lparr>evolutionState := Some (st\<lparr>isComplete := True\<rparr>)\<rparr>
       else (\<exists>avg recs. rep = Evolved (currentGeneration st + 1) avg
                               (Math_max (map compositeScore (first # rest)))
                               (length (first # rest)) recs)
            \<and> e' = e\<lparr>evolutionState :=
                       Some (st\<lparr>currentGeneration := currentGeneration st + 1\<rparr>)\<rparr>)"
    using out by (auto split: if_splits)
  from st fs th cap mx br show ?thesis by blast
qed

theorem evolveGeneration_termination_order_witness:
  "evolveGeneration (run scenario_B initialEngine) =
     (Inr (Complete Convergence 0
             (Some \<lparr>id_solution = ''s1'', content = ''x'', generation = 0,
                    scores = [(''check_1'', 1), (''check_2'', 1)],
                    compositeScore = Finite 1, parentSolutions = [], timestamp = 1\<rparr>)
             (Finite 1) (Finite 1)),
      snd (evolveGeneration (run scenario_B initialEngine)))
   \<and> snd (evolveGeneration (run scenario_B initialEngine)) =
       (run scenario_B initialEngine)
         \<lparr>evolutionState := map_option (\<lambda>st. st\<lparr>isComplete := True\<rparr>)
                              (evolutionState (run scenario_B initialEngine))\<rparr>
   \<and> evolveGeneration (run scenario_D initialEngine) =
     (Inr (Complete MaxGenerations 0
             (Some \<lparr>id_solution = ''s1'', content = ''x'', generation = 0,
                    scores = [(''check_1'', 3 / 10), (''check_2'', 3 / 10)],
                    compositeScore = Finite (3 / 10), parentSolutions = [], timestamp = 1\<rparr>)
             (Finite (3 / 10)) (Finite (3 / 10))),
      snd (evolveGeneration (run scenario_D initialEngine)))
   \<and> snd (evolveGeneration (run scenario_D initialEngine)) =
       (run scenario_D initialEngine)
         \<lparr>evolutionState := map_option (\<lambda>st. st\<lparr>isComplete := True\<rparr>)
                              (evolutionState (run scenario_D initialEngine))\<rparr>
   \<and> evolveGeneration (run scenario_C initialEngine) =
     (Inr (Evolved 1 (Finite (7 / 16)) (Finite (1 / 2)) 2
             [\<lparr>checkId = ''check_1'', bestSolutionId = ''s1'', score = Some (1 / 2)\<rparr>,
              \<lparr>checkId = ''check_2'', bestSolutionId = ''s2'', score = Some (1 / 2)\<rparr>]),
      snd (evolveGeneration (run scenario_C initialEngine)))
   \<and> snd (evolveGeneration (run scenario_C initialEngine)) =
       (run scenario_C initialEngine)
         \<lparr>evolutionState := map_option (\<lambda>st. st\<lparr>currentGeneration := 1\<rparr>)
                              (evolutionState (run scenario_C initialEngine))\<rparr>"
proof -
  have b: "snd (evolveGeneration (run scenario_B initialEngine)) =
       (run scenario_B initialEngine)
         \<lparr>evolutionState := map_option (\<lambda>st. st\<lparr>isComplete := True\<rparr>)
                              (evolutionState (run scenario_B initialEngine))\<rparr>"
    using evolveGeneration_termination_order [OF evolve_B]
    by (auto simp add: run_B fullyScored_def currentGenerationSolutions_def Math_max_def
        split: if_splits)
  have d: "snd (evolveGeneration (run scenario_D initialEngine)) =
       (run scenario_D initialEngine)
         \<lparr>evolutionState := map_option (\<lambda>st. st\<lparr>isComplete := True\<rparr>)
                              (evolutionState (run scenario_D initialEngine))\<rparr>"
    using evolveGeneration_termination_order [OF evolve_D]
    by (auto simp add: run_D fullyScored_def currentGenerationSolutions_def Math_max_def
        split: if_splits)
  have c: "snd (evolveGeneration (run scenario_C initialEngine)) =
       (run scenario_C initialEngine)
         \<lparr>evolutionState := map_option (\<lambda>st. st\<lparr>currentGeneration := 1\<rparr>)
                              (evolutionState (run scenario_C initialEngine))\<rparr>"
    using evolveGeneration_termination_order [OF evolve_C]
    by (auto simp add: run_C fullyScored_def currentGenerationSolutions_def Math_max_def
        split: if_splits)
  from evolve_B b evolve_D d evolve_C c show ?thesis by (intro conjI)
qed

subsection \<open>C3: the crossover recommendations\<close>

text \<open>
  C3: in a successful \<open>evolveGeneration\<close> call the recommendation list (the one an
  evolved report carries) has one entry per consistency check, in the order of the
  checks; the solution an entry names is a fully scored solution of the current
  generation whose score on that check is greatest among the fully scored ones, and
  strictly greater than the score of every fully scored solution before it: among equal
  scores the first in the generation's insertion order is kept.
\<close>

theorem evolveGeneration_recommendations:
  assumes "evolveGeneration e = (Inr rep, e')"
  shows "\<exists>st first rest recs.
     evolutionState e = Some st \<and> fullyScored e st = Some (first # rest)
   \<and> those (map (recommend first rest) (consistencyChecks st)) = Some recs
   \<and> (\<forall>g avg best n recs'. rep = Evolved g avg best n recs' \<longrightarrow> recs' = recs)
   \<and> length recs = length (consistencyChecks st)
   \<and> (\<forall>i<length recs.
         checkId (recs ! i) = id_check (consistencyChecks st ! i)
       \<and> (\<exists>j<length (first # rest).
             bestSolutionId (recs ! i) = id_solution ((first # rest) ! j)
           \<and> score (recs ! i) = map_of (scores ((first # rest) ! j)) (checkId (recs ! i))
           \<and> length (scores ((first # rest) ! j)) = length (consistencyChecks st)
           \<and> (\<exists>sid\<in>set (currentGenerationSolutions st). \<exists>a.
                 solutions st sid = Some a \<and> (first # rest) ! j = heap e a)
           \<and> (\<forall>k<length (first # rest).
                 scoreOn (checkId (recs ! i)) ((first # rest) ! k)
                   \<le> scoreOn (checkId (recs ! i)) ((first # rest) ! j))
           \<and> (\<forall>k<j. scoreOn (checkId (recs ! i)) ((first # rest) ! k)
                   < scoreOn (checkId (recs ! i)) ((first # rest) ! j))))"
proof -
  from assms obtain st first rest recs threshold cap where
    st: "evolutionState e = Some st"
    and fs: "fullyScored e st = Some (first # rest)"
    and recs: "those (map (recommend first rest) (consistencyChecks st)) = Some recs"
    and th: "toNumber (convergenceThreshold st) = Some threshold"
    and cap: "toNumber (maxGenerations st) = Some cap"
    and out: "(if js_ge (Math_max (map compositeScore (first # rest))) threshold
          \<or> js_ge (Finite (real (currentGeneration st))) (js_add cap (Finite (- 1)))
      then rep = Complete
                   (if js_ge (Math_max (map compositeScore (first # rest))) threshold
                    then Convergence else MaxGenerations)
                   (currentGeneration st) (map_option (heap e) (bestSolution st))
                   (Math_max (map compositeScore (first # rest))) (averageScore (first # rest))
           \<and> e' = e\<lparr>evolutionState := Some (st\<lparr>isComplete := True\<rparr>)\<rparr>
      else rep = Evolved (currentGeneration st + 1) (averageScore (first # rest))
                   (Math_max (map compositeScore (first # rest))) (length (first # rest)) recs
           \<and> e' = e\<lparr>evolutionState :=
                      Some (st\<lparr>currentGeneration := currentGeneration st + 1\<rparr>)\<rparr>)"
    by (rule evolveGeneration_Inr)
  let ?fs = "first # rest"
  let ?cs = "consistencyChecks st"
  have rep: "\<forall>g avg best n recs'. rep = Evolved g avg best n recs' \<longrightarrow> recs' = recs"
    using out by (auto split: if_splits)
  from those_map_nth[OF recs] have len: "length recs = length ?cs"
    and nth: "\<forall>i<length ?cs. recommend first rest (?cs ! i) = Some (recs ! i)" by auto
  have each: "checkId (recs ! i) = id_check (?cs ! i)
       \<and> (\<exists>j<length ?fs.
             bestSolutionId (recs ! i) = id_solution (?fs ! j)
           \<and> score (recs ! i) = map_of (scores (?fs ! j)) (checkId (recs ! i))
           \<and> length (scores (?fs ! j)) = length ?cs
           \<and> (\<exists>sid\<in>set (currentGenerationSolutions st). \<exists>a.
                 solutions st sid = Some a \<and> ?fs ! j = heap e a)
           \<and> (\<forall>k<length ?fs. scoreOn (checkId (recs ! i)) (?fs ! k) \<le> scoreOn (checkId (recs ! i)) (?fs ! j))
           \<and> (\<forall>k<j. scoreOn (checkId (recs ! i)) (?fs ! k) < scoreOn (checkId (recs ! i)) (?fs ! j)))"
    if i: "i < length recs" for i
  proof -
    let ?c = "?cs ! i"
    from i len nth have r: "recommend first rest ?c = Some (recs ! i)" by simp
    then have ri: "recs ! i = \<lparr>checkId = id_check ?c,
         bestSolutionId = id_solution (bestForCheck (id_check ?c) first rest),
         score = map_of (scores (bestForCheck (id_check ?c) first rest)) (id_check ?c)\<rparr>"
      by (auto simp add: recommend_def Let_def split: option.splits)
    from bestForCheck_first_max[of first rest "id_check ?c"] obtain j where
      j: "j < length ?fs" "bestForCheck (id_check ?c) first rest = ?fs ! j"
      and mx: "\<forall>k<length ?fs. scoreOn (id_check ?c) (?fs ! k) \<le> scoreOn (id_check ?c) (?fs ! j)"
      and fi: "\<forall>k<j. scoreOn (id_check ?c) (?fs ! k) < scoreOn (id_check ?c) (?fs ! j)"
      by blast
    have mem: "?fs ! j \<in> set ?fs" using j(1) by (rule nth_mem)
    note fm = fullyScored_members[OF fs mem]
    have c: "checkId (recs ! i) = id_check ?c" by (simp add: ri)
    have b: "bestSolutionId (recs ! i) = id_solution (?fs ! j)" by (simp add: ri j(2))
    have s: "score (recs ! i) = map_of (scores (?fs ! j)) (checkId (recs ! i))" by (simp add: ri j(2))
    show ?thesis
      unfolding c using j(1) b s[unfolded c] fm mx fi by blast
  qed
  from st fs recs rep len each show ?thesis by blast
qed

theorem evolveGeneration_recommendations_witness:
  "evolveGeneration (run scenario_C initialEngine) =
     (Inr (Evolved 1 (Finite (7 / 16)) (Finite (1 / 2)) 2
             [\<lparr>checkId = ''check_1'', bestSolutionId = ''s1'', score = Some (1 / 2)\<rparr>,
              \<lparr>checkId = ''check_2'', bestSolutionId = ''s2'', score = Some (1 / 2)\<rparr>]),
      snd (evolveGeneration (run scenario_C initialEngine)))
   \<and> (\<exists>first rest.
         fullyScored (run scenario_C initialEngine)
           (the (evolutionState (run scenario_C initialEngine))) = Some (first # rest)
       \<and> those (map (recommend first rest)
                  (consistencyChecks (the (evolutionState (run scenario_C initialEngine)))))
           = Some [\<lparr>checkId = ''check_1'', bestSolutionId = ''s1'', score = Some (1 / 2)\<rparr>,
                   \<lparr>checkId = ''check_2'', bestSolutionId = ''s2'', score = Some (1 / 2)\<rparr>]
       \<and> map id_solution (first # rest) = [''s1'', ''s2'']
       \<and> map (scoreOn ''check_1'') (first # rest) = [1 / 2, 1 / 2]
       \<and> map (scoreOn ''check_2'') (first # rest) = [1 / 4, 1 / 2])"
proof -
  from evolveGeneration_recommendations [OF evolve_C] obtain st first rest recs where
    st: "evolutionState (run scenario_C initialEngine) = Some st"
    and fs: "fullyScored (run scenario_C initialEngine) st = Some (first # rest)"
    and recs: "those (map (recommend first rest) (consistencyChecks st)) = Some recs"
    and rep: "\<forall>g avg best n recs'.
        Evolved 1 (Finite (7 / 16)) (Finite (1 / 2)) 2
             [\<lparr>checkId = ''check_1'', bestSolutionId = ''s1'', score = Some (1 / 2)\<rparr>,
              \<lparr>checkId = ''check_2'', bestSolutionId = ''s2'', score = Some (1 / 2)\<rparr>]
          = Evolved g avg best n recs' \<longrightarrow> recs' = recs"
    by blast
  from rep have r: "recs = [\<lparr>checkId = ''check_1'', bestSolutionId = ''s1'', score = Some (1 / 2)\<rparr>,
              \<lparr>checkId = ''check_2'', bestSolutionId = ''s2'', score = Some (1 / 2)\<rparr>]"
    by blast
  from st have st': "the (evolutionState (run scenario_C initialEngine)) = st" by simp
  from fs have f: "first # rest =
     [\<lparr>id_solution = ''s1'', content = ''x'', generation = 0,
              scores = [(''check_1'', 1 / 2), (''check_2'', 1 / 4)],
              compositeScore = Finite (3 / 8), parentSolutions = [], timestamp = 1\<rparr>,
      \<lparr>id_solution = ''s2'', content = ''y'', generation = 0,
              scores = [(''check_1'', 1 / 2), (''check_2'', 1 / 2)],
              compositeScore = Finite (1 / 2), parentSolutions = [], timestamp = 2\<rparr>]"
    using st by (auto simp add: run_C fullyScored_def currentGenerationSolutions_def)
  have ids: "map id_solution (first # rest) = [''s1'', ''s2'']"
    unfolding f by simp
  have s1: "map (scoreOn ''check_1'') (first # rest) = [1 / 2, 1 / 2]"
    unfolding f by (simp add: scoreOn_def)
  have s2: "map (scoreOn ''check_2'') (first # rest) = [1 / 4, 1 / 2]"
    unfolding f by (simp add: scoreOn_def)
  have ex: "\<exists>first rest.
         fullyScored (run scenario_C initialEngine) st = Some (first # rest)
       \<and> those (map (recommend first rest) (consistencyChecks st))
           = Some [\<lparr>checkId = ''check_1'', bestSolutionId = ''s1'', score = Some (1 / 2)\<rparr>,
                   \<lparr>checkId = ''check_2'', bestSolutionId = ''s2'', score = Some (1 / 2)\<rparr>]
       \<and> map id_solution (first # rest) = [''s1'', ''s2'']
       \<and> map (scoreOn ''check_1'') (first # rest) = [1 / 2, 1 / 2]
       \<and> map (scoreOn ''check_2'') (first # rest) = [1 / 4, 1 / 2]"
  proof (intro exI conjI)
    show "fullyScored (run scenario_C initialEngine) st = Some (first # rest)"
      by (rule fs)
    show "those (map (recommend first rest) (consistencyChecks st))
           = Some [\<lparr>checkId = ''check_1'', bestSolutionId = ''s1'', score = Some (1 / 2)\<rparr>,
                   \<lparr>checkId = ''check_2'', bestSolutionId = ''s2'', score = Some (1 / 2)\<rparr>]"
      using recs r by simp
    show "map id_solution (first # rest) = [''s1'', ''s2'']" by (rule ids)
    show "map (scoreOn ''check_1'') (first # rest) = [1 / 2, 1 / 2]" by (rule s1)
    show "map (scoreOn ''check_2'') (first # rest) = [1 / 4, 1 / 2]" by (rule s2)
  qed
  from evolve_C ex show ?thesis
    unfolding st' by (rule conjI)
qed

subsection \<open>C4: the range of the composite score\<close>

text \<open>
  C4, as stated, does not hold: the sums are sums of doubles. In \<open>scenario_W\<close> the two
  weights are \<open>1e308\<close> (non-negative, of positive sum) and the solution has the score 1.0 on
  the first check. The successful call that scores it 1.0 on the second check computes
  \<open>Infinity / Infinity\<close>: the composite score stored and reported is \<open>NaN\<close>.
\<close>

theorem compositeScore_NaN_on_overflow:
  "map_option (\<lambda>st. map weight (consistencyChecks st))
     (evolutionState (run scenario_W initialEngine))
     = Some [JsNumber weight_1e308, JsNumber weight_1e308]
   \<and> map_option (\<lambda>st. totalWeight (consistencyChecks st))
        (evolutionState (run scenario_W initialEngine)) = Some (Some PosInfinity)
   \<and> scores (heap (run scenario_W initialEngine) 0) = [(''check_1'', 1)]
   \<and> fst (scoreSolution (Some (scenario_score ''s1'' ''check_2'' 1))
            (run scenario_W initialEngine))
       = Inr (Scored ''s1'' ''check_2'' 1 NaN 2 2 True)
   \<and> compositeScore
        (heap (snd (scoreSolution (Some (scenario_score ''s1'' ''check_2'' 1))
                      (run scenario_W initialEngine))) 0) = NaN"
  by (simp add: run_W scoreSolution_def scenario_score_def composite_def totalWeightedScore_def
      totalWeight_def withScore_def Let_def big_number big_sum big_nonzero)

text \<open>
  C4, amended: in a session whose weights are non-negative numbers and whose total
  weight, as \<open>scoreSolution\<close> computes it, is finite and positive (the sum of the weights
  does not overflow), a successful \<open>scoreSolution\<close> call on a solution whose stored scores
  lie in [0,1] leaves that solution with a finite composite score in [0,1], which is also
  the score reported.
\<close>

theorem compositeScore_in_unit_interval:
  assumes "scoreSolution input e = (Inr rep, e')"
    and "evolutionState e = Some st"
    and "input = Some data"
    and "solutionId_arg data = Some sid"
    and "solutions st sid = Some a"
    and "map weight (consistencyChecks st) = map JsNumber ws"
    and "\<forall>w\<in>set ws. 0 \<le> w"
    and "totalWeight (consistencyChecks st) = Some (Finite t)"
    and "0 < t"
    and "\<forall>(k, v)\<in>set (scores (heap e a)). 0 \<le> v \<and> v \<le> 1"
  shows "\<exists>x. compositeScore (heap e' a) = Finite x \<and> 0 \<le> x \<and> x \<le> 1
            \<and> (\<exists>sid' cid sc n m f. rep = Scored sid' cid sc (Finite x) n m f)"
proof -
  from assms(1) obtain st0 data0 sid0 cid sc a0 chk c where
    h: "evolutionState e = Some st0" "input = Some data0"
    "solutionId_arg data0 = Some sid0" "score_arg data0 = Some sc" "0 \<le> sc" "sc \<le> 1"
    "solutions st0 sid0 = Some a0"
    and c: "composite (consistencyChecks st0) (AList.update cid sc (scores (heap e a0))) = Some c"
    and e': "e' = e\<lparr>evolutionState := Some (st0\<lparr>bestSolution :=
               updatedBest (bestSolution st0) a0
                 ((heap e)(a0 := (withScore cid sc (heap e a0))\<lparr>compositeScore := c\<rparr>))\<rparr>),
             heap := (heap e)(a0 := (withScore cid sc (heap e a0))\<lparr>compositeScore := c\<rparr>)\<rparr>"
    and rep: "rep = Scored (id_solution (heap e a0)) cid sc c
             (length (AList.update cid sc (scores (heap e a0))))
             (length (consistencyChecks st0))
             (length (AList.update cid sc (scores (heap e a0)))
                = length (consistencyChecks st0))"
    by (rule scoreSolution_Inr)
  from h assms have eq: "st0 = st" "a0 = a" by simp_all
  have upd: "\<forall>(k, v)\<in>set (AList.update cid sc (scores (heap e a))). 0 \<le> v \<and> v \<le> 1"
    using assms(10) h(5,6) by (auto dest!: set_update_cases)
  from totalWeight_Finite[OF assms(6) assms(7) assms(8)] assms(9)
  have pos: "0 < sum_list ws" and fin: "sum_list ws < js_overflow" by simp_all
  from composite_unit_interval[OF assms(6) assms(7) pos fin upd]
  obtain x where x: "composite (consistencyChecks st) (AList.update cid sc (scores (heap e a))) = Some (Finite x)"
      "0 \<le> x" "x \<le> 1" by blast
  from c x(1) eq have "c = Finite x" by simp
  then show ?thesis
    using x(2,3) by (simp add: e' rep eq)
qed

theorem compositeScore_in_unit_interval_witness:
  "scoreSolution (Some (scenario_score ''s1'' ''check_1'' (1 / 2))) (run scenario_B initialEngine) =
     (Inr (Scored ''s1'' ''check_1'' (1 / 2) (Finite (3 / 4)) 2 2 True),
      snd (scoreSolution (Some (scenario_score ''s1'' ''check_1'' (1 / 2)))
             (run scenario_B initialEngine)))
   \<and> map_option (\<lambda>st. map weight (consistencyChecks st))
        (evolutionState (run scenario_B initialEngine)) = Some [JsNumber 1, JsNumber 1]
   \<and> map_option (\<lambda>st. totalWeight (consistencyChecks st))
        (evolutionState (run scenario_B initialEngine)) = Some (Some (Finite 2))
   \<and> scores (heap (run scenario_B initialEngine) 0) = [(''check_1'', 1), (''check_2'', 1)]
   \<and> (\<exists>x. compositeScore
             (heap (snd (scoreSolution (Some (scenario_score ''s1'' ''check_1'' (1 / 2)))
                           (run scenario_B initialEngine))) 0) = Finite x
          \<and> 0 \<le> x \<and> x \<le> 1)"
proof -
  let ?e = "run scenario_B initialEngine"
  let ?st = "the (evolutionState ?e)"
  have h2: "evolutionState ?e = Some ?st"
    by (simp add: run_B)
  have h4: "solutionId_arg (scenario_score ''s1'' ''check_1'' (1 / 2)) = Some ''s1''"
    by (simp add: scenario_score_def)
  have h5: "solutions ?st ''s1'' = Some 0"
    by (simp add: run_B)
  have h6: "map weight (consistencyChecks ?st) = map JsNumber [1, 1]"
    by (simp add: run_B)
  have h7: "\<forall>w\<in>set [1, 1 :: real]. 0 \<le> w"
    by simp
  have h8: "totalWeight (consistencyChecks ?st) = Some (Finite 2)"
    by (simp add: run_B totalWeight_def js_number_small)
  have h9: "(0::real) < 2"
    by simp
  have h10: "\<forall>(k, v)\<in>set (scores (heap ?e 0)). 0 \<le> v \<and> v \<le> 1"
    by (simp add: run_B)
  have c: "\<exists>x. compositeScore
             (heap (snd (scoreSolution (Some (scenario_score ''s1'' ''check_1'' (1 / 2))) ?e)) 0)
               = Finite x \<and> 0 \<le> x \<and> x \<le> 1"
    using compositeScore_in_unit_interval [OF score_B h2 refl h4 h5 h6 h7 h8 h9 h10] by blast
  have w: "map_option (\<lambda>st. map weight (consistencyChecks st)) (evolutionState ?e)
             = Some [JsNumber 1, JsNumber 1]"
    by (simp add: run_B)
  have tw: "map_option (\<lambda>st. totalWeight (consistencyChecks st)) (evolutionState ?e)
             = Some (Some (Finite 2))"
    by (simp add: run_B totalWeight_def js_number_small)
  have s: "scores (heap ?e 0) = [(''check_1'', 1), (''check_2'', 1)]"
    by (simp add: run_B)
  from score_B w tw s c show ?thesis by (intro conjI)
qed

subsection \<open>C5: an error payload leaves the engine as it was\<close>




subsection \<open>C6: validation of the consistency checks at start\<close>

text \<open>
  C6, as stated, does not hold: a start with an empty \<open>consistencyChecks\<close> array, or with a
  check object without a description, succeeds and installs a session. The calls below
  are made on the initial engine.
\<close>

theorem start_accepts_empty_checks:
  "startEvolution 0
     (Some \<lparr>problemStatement_arg = Some ''p'', consistencyChecks_arg = Some [],
            populationSize_arg = None, maxGenerations_arg = None,
            convergenceThreshold_arg = None\<rparr>) initialEngine
   = (Inr (Started ''p'' [] 0 (JsNumber 5) (JsNumber 3)),
      initialEngine\<lparr>evolutionState := Some
        \<lparr>problemStatement = ''p'', consistencyChecks = [], currentGeneration = 0,
         maxGenerations = JsNumber 5, populationSize = JsNumber 3,
         convergenceThreshold = JsNumber (95 / 100),
         solutions = Map.empty, generationHistory = Map.empty, bestSolution = None,
         isComplete = False, startTime = 0\<rparr>\<rparr>)
   \<and> fst (startEvolution 0
     (Some \<lparr>problemStatement_arg = Some ''p'',
            consistencyChecks_arg = Some [CheckRecord None None],
            populationSize_arg = None, maxGenerations_arg = None,
            convergenceThreshold_arg = None\<rparr>) initialEngine)
   = Inr (Started ''p'' [\<lparr>id_check = ''check_1'', description = None, weight = JsNumber 1\<rparr>]
            0 (JsNumber 5) (JsNumber 3))"
  by (simp add: startEvolution_def eval_defs)

text \<open>
  C6, amended: when \<open>consistencyChecks\<close> is absent or not an array, \<open>startEvolution\<close>
  fails with a validation error and leaves the engine as it was; the error names
  \<open>consistencyChecks\<close> unless \<open>problemStatement\<close> is itself absent, not a string or empty,
  which is checked first. An empty array passes the validation: with a valid problem
  statement (and a \<open>maxGenerations\<close> that the second log line can print) the call
  succeeds and installs a session without checks.
\<close>

theorem start_validates_checks_presence:
  "(consistencyChecks_arg data = None \<longrightarrow>
      startEvolution now (Some data) e =
        (Inl (Validation (if problemStatement_arg data = None
                             \<or> problemStatement_arg data = Some []
                          then ''problemStatement'' else ''consistencyChecks'')), e))
   \<and> (problemStatement_arg data = Some ps \<and> ps \<noteq> []
        \<and> consistencyChecks_arg data = Some []
        \<and> maxGenerations_arg data \<noteq> Some JsUnconvertible \<longrightarrow>
        (\<exists>rep st. startEvolution now (Some data) e = (Inr rep, e\<lparr>evolutionState := Some st\<rparr>)
                  \<and> consistencyChecks st = []))"
  by (auto simp add: startEvolution_def enumerate_eq_zip Let_def toNumber_or_default
      split: option.splits)

theorem start_validates_checks_presence_witness:
  "startEvolution 9
     (Some \<lparr>problemStatement_arg = Some ''p'', consistencyChecks_arg = None,
            populationSize_arg = None, maxGenerations_arg = None,
            convergenceThreshold_arg = None\<rparr>) (run scenario_B initialEngine)
   = (Inl (Validation ''consistencyChecks''), run scenario_B initialEngine)
   \<and> (\<exists>rep st. startEvolution 9
        (Some \<lparr>problemStatement_arg = Some ''p'', consistencyChecks_arg = Some [],
               populationSize_arg = None, maxGenerations_arg = None,
               convergenceThreshold_arg = None\<rparr>) (run scenario_B initialEngine)
       = (Inr rep, (run scenario_B initialEngine)\<lparr>evolutionState := Some st\<rparr>)
         \<and> consistencyChecks st = [])"
  using start_validates_checks_presence
          [of "\<lparr>problemStatement_arg = Some ''p'', consistencyChecks_arg = None,
                populationSize_arg = None, maxGenerations_arg = None,
                convergenceThreshold_arg = None\<rparr>" 9 "run scenario_B initialEngine" "''p''"]
        start_validates_checks_presence
          [of "\<lparr>problemStatement_arg = Some ''p'', consistencyChecks_arg = Some [],
                populationSize_arg = None, maxGenerations_arg = None,
                convergenceThreshold_arg = None\<rparr>" 9 "run scenario_B initialEngine" "''p''"]
  by simp

subsection \<open>C7: the stored weight of a check\<close>

text \<open>
  C7 fails on the code for the weight 0: \<open>check.weight ? check.weight : 1.0\<close> takes the
  number zero for an absent weight. A start whose only check is
  \<open>{description: "d", weight: 0}\<close> stores that check with weight 1.
\<close>

theorem start_zero_weight_becomes_one:
  "map_option (\<lambda>st. map weight (consistencyChecks st))
     (evolutionState (snd (startEvolution 0
        (Some \<lparr>problemStatement_arg = Some ''p'',
               consistencyChecks_arg = Some [CheckRecord (Some ''d'') (Some (JsNumber 0))],
               populationSize_arg = None, maxGenerations_arg = None,
               convergenceThreshold_arg = None\<rparr>) initialEngine)))
   = Some [JsNumber 1]"
  by (simp add: startEvolution_def eval_defs)

subsection \<open>C8: the generation history\<close>

text \<open>
  C8: every engine a server can reach (through any requests, the ids that
  \<open>generateId\<close> returns being new) satisfies the invariant of the generation history:
  the solutions listed in \<open>generationHistory[g]\<close> have generation \<open>g\<close>, and every id of
  the \<open>solutions\<close> table is listed in exactly one bucket.
\<close>

theorem history_invariant_reachable:
  assumes "reachable e"
  shows "history_invariant e"
proof (cases "evolutionState e")
  case None
  then show ?thesis by (simp add: history_invariant_def)
next
  case (Some st)
  from reachable_inv[OF assms] Some have
    C: "\<And>g ids. generationHistory st g = Some ids \<Longrightarrow>
               distinct ids
             \<and> (\<forall>sid\<in>set ids. \<exists>a. solutions st sid = Some a \<and> generation (heap e a) = g)"
    and D: "\<And>sid a. solutions st sid = Some a \<Longrightarrow>
               (\<exists>g ids. generationHistory st g = Some ids \<and> sid \<in> set ids)"
    by (simp_all add: engine_inv_def)
  have one: "\<exists>!g. \<exists>ids. generationHistory st g = Some ids \<and> sid \<in> set ids"
    if "sid \<in> dom (solutions st)" for sid
  proof -
    from that obtain a where a: "solutions st sid = Some a" by blast
    from D[OF a] obtain g ids where g: "generationHistory st g = Some ids" "sid \<in> set ids"
      by blast
    have "g' = g" if g': "generationHistory st g' = Some ids'" "sid \<in> set ids'" for g' ids'
    proof -
      from C[OF g(1)] g(2) a have "generation (heap e a) = g" by auto
      moreover from C[OF g'(1)] g'(2) a have "generation (heap e a) = g'" by auto
      ultimately show ?thesis by simp
    qed
    with g show ?thesis by blast
  qed
  show ?thesis
    using Some C one by (simp add: history_invariant_def)
qed

theorem history_invariant_reachable_witness:
  "reachable (run scenario_E initialEngine)
   \<and> history_invariant (run scenario_E initialEngine)
   \<and> map_option (\<lambda>st. (generationHistory st 0, generationHistory st 1, generationHistory st 2))
        (evolutionState (run scenario_E initialEngine))
       = Some (Some [''s1'', ''s2''], Some [''s3''], None)
   \<and> map (\<lambda>a. generation (heap (run scenario_E initialEngine) a)) [0, 1, 2] = [0, 0, 1]"
proof -
  have r: "reachable (run scenario_E initialEngine)"
    using reachable_init fresh_E by (rule reachable_run)
  have h: "history_invariant (run scenario_E initialEngine)"
    using r by (rule history_invariant_reachable)
  have g: "map_option (\<lambda>st. (generationHistory st 0, generationHistory st 1, generationHistory st 2))
        (evolutionState (run scenario_E initialEngine))
       = Some (Some [''s1'', ''s2''], Some [''s3''], None)"
    by (simp add: run_E_state)
  from r h g run_E_generations show ?thesis by (intro conjI)
qed

subsection \<open>C9: scoring twice\<close>

text \<open>
  C9: a successful \<open>scoreSolution\<close> call, repeated with the same arguments, returns the
  same payload and leaves the engine as the first call left it; so the solution's score
  table and composite score are those of a single call.
\<close>

theorem scoreSolution_idempotent:
  assumes "scoreSolution input e = (Inr rep, e1)"
  shows "scoreSolution input e1 = (Inr rep, e1)"
proof -
  from assms obtain st data sid cid sc a chk c where
    inp: "input = Some data"
    and sid: "solutionId_arg data = Some sid" "sid \<noteq> []"
    and cid: "checkId_arg data = Some cid" "cid \<noteq> []"
    and sc: "score_arg data = Some sc" "0 \<le> sc" "sc \<le> 1"
    and a: "solutions st sid = Some a"
    and chk: "find (\<lambda>c. id_check c = cid) (consistencyChecks st) = Some chk"
    and c: "composite (consistencyChecks st) (AList.update cid sc (scores (heap e a))) = Some c"
    and e1: "e1 = e\<lparr>evolutionState := Some (st\<lparr>bestSolution :=
               updatedBest (bestSolution st) a
                 ((heap e)(a := (withScore cid sc (heap e a))\<lparr>compositeScore := c\<rparr>))\<rparr>),
             heap := (heap e)(a := (withScore cid sc (heap e a))\<lparr>compositeScore := c\<rparr>)\<rparr>"
    and rep: "rep = Scored (id_solution (heap e a)) cid sc c
             (length (AList.update cid sc (scores (heap e a))))
             (length (consistencyChecks st))
             (length (AList.update cid sc (scores (heap e a)))
                = length (consistencyChecks st))"
    by (rule scoreSolution_Inr)
  let ?s = "(withScore cid sc (heap e a))\<lparr>compositeScore := c\<rparr>"
  have again: "withScore cid sc ?s = ?s" by (rule withScore_twice)
  have sc': "scores ?s = AList.update cid sc (scores (heap e a))" by (simp add: withScore_def)
  have id': "id_solution ?s = id_solution (heap e a)" by (simp add: withScore_def)
  show ?thesis
    unfolding e1 rep
    using inp sid cid sc a chk c
    by (simp add: scoreSolution_def Let_def again sc' id' updatedBest_twice)
qed

theorem scoreSolution_idempotent_witness:
  "scoreSolution (Some (scenario_score ''s1'' ''check_1'' (1 / 2))) (run scenario_A initialEngine) =
     (Inr (Scored ''s1'' ''check_1'' (1 / 2) (Finite (1 / 4)) 1 2 False),
      snd (scoreSolution (Some (scenario_score ''s1'' ''check_1'' (1 / 2)))
             (run scenario_A initialEngine)))
   \<and> scoreSolution (Some (scenario_score ''s1'' ''check_1'' (1 / 2)))
       (snd (scoreSolution (Some (scenario_score ''s1'' ''check_1'' (1 / 2)))
               (run scenario_A initialEngine))) =
     (Inr (Scored ''s1'' ''check_1'' (1 / 2) (Finite (1 / 4)) 1 2 False),
      snd (scoreSolution (Some (scenario_score ''s1'' ''check_1'' (1 / 2)))
             (run scenario_A initialEngine)))"
  using score_A scoreSolution_idempotent [OF score_A] by (rule conjI)

subsection \<open>C10: what scoring leaves alone\<close>

text \<open>
  C10: a successful \<open>scoreSolution\<close> call changes nothing of the session but
  \<open>bestSolution\<close>, allocates nothing, leaves every solution object but the scored one as it
  was, and of the scored one changes only \<open>compositeScore\<close> and the entry of \<open>scores\<close> at
  the given check id.
\<close>

theorem scoreSolution_frame:
  assumes "scoreSolution input e = (Inr rep, e')"
  shows "\<exists>st st' data sid cid sc a.
     evolutionState e = Some st \<and> evolutionState e' = Some st' \<and> input = Some data
   \<and> solutionId_arg data = Some sid \<and> checkId_arg data = Some cid \<and> score_arg data = Some sc
   \<and> solutions st sid = Some a
   \<and> problemStatement st' = problemStatement st
   \<and> consistencyChecks st' = consistencyChecks st
   \<and> currentGeneration st' = currentGeneration st
   \<and> maxGenerations st' = maxGenerations st
   \<and> populationSize st' = populationSize st
   \<and> convergenceThreshold st' = convergenceThreshold st
   \<and> solutions st' = solutions st
   \<and> generationHistory st' = generationHistory st
   \<and> isComplete st' = isComplete st
   \<and> startTime st' = startTime st
   \<and> next_addr e' = next_addr e
   \<and> (\<forall>b. b \<noteq> a \<longrightarrow> heap e' b = heap e b)
   \<and> id_solution (heap e' a) = id_solution (heap e a)
   \<and> content (heap e' a) = content (heap e a)
   \<and> generation (heap e' a) = generation (heap e a)
   \<and> parentSolutions (heap e' a) = parentSolutions (heap e a)
   \<and> timestamp (heap e' a) = timestamp (heap e a)
   \<and> (\<forall>k. k \<noteq> cid \<longrightarrow> map_of (scores (heap e' a)) k = map_of (scores (heap e a)) k)"
  using assms
  by (auto simp add: scoreSolution_def Let_def withScore_def update_conv'
      split: option.splits if_splits)

theorem scoreSolution_frame_witness:
  "scoreSolution (Some (scenario_score ''s1'' ''check_1'' (1 / 2))) (run scenario_A initialEngine) =
     (Inr (Scored ''s1'' ''check_1'' (1 / 2) (Finite (1 / 4)) 1 2 False),
      snd (scoreSolution (Some (scenario_score ''s1'' ''check_1'' (1 / 2)))
             (run scenario_A initialEngine)))
   \<and> heap (snd (scoreSolution (Some (scenario_score ''s1'' ''check_1'' (1 / 2)))
             (run scenario_A initialEngine))) 1
     = heap (run scenario_A initialEngine) 1
   \<and> map_option generationHistory
       (evolutionState (snd (scoreSolution (Some (scenario_score ''s1'' ''check_1'' (1 / 2)))
             (run scenario_A initialEngine))))
     = map_option generationHistory (evolutionState (run scenario_A initialEngine))
   \<and> map_option consistencyChecks
       (evolutionState (snd (scoreSolution (Some (scenario_score ''s1'' ''check_1'' (1 / 2)))
             (run scenario_A initialEngine))))
     = map_option consistencyChecks (evolutionState (run scenario_A initialEngine))
   \<and> map_of (scores (heap (snd (scoreSolution (Some (scenario_score ''s1'' ''check_1'' (1 / 2)))
             (run scenario_A initialEngine))) 0)) ''check_2''
     = map_of (scores (heap (run scenario_A initialEngine) 0)) ''check_2''"
  using score_A scoreSolution_frame [OF score_A]
  by (auto simp add: run_A scenario_score_def)

end
